theory Spec2Isabelle
  imports Complex_Main "HOL-Library.Multiset"
begin

section \<open>Data model (app/models)\<close>

text \<open>
  Dates are proleptic ordinal day numbers (\<open>date.toordinal()\<close>), so that comparison and
  \<open>timedelta(days=n)\<close> are integer comparison and addition. Timestamps are integers too.
  The \<open>Float\<close> columns are only stored, copied and tested for \<open>None\<close>; they are reals.
  A nullable column is an \<open>option\<close>. Columns filled by the database alone
  (\<open>archived_at\<close>, \<open>EmailLog.created_at\<close>) are left out.
\<close>

type_synonym date = int
type_synonym datetime = int
type_synonym hours = real

record State =
  state_id :: int
  state_name :: string
  state_description :: "string option"

record User =
  user_id :: int
  username :: string
  email :: string
  full_name :: "string option"
  hashed_password :: string
  user_is_deleted :: bool
  user_deleted_at :: "datetime option"

text \<open>
  \<open>Task.status_state_id\<close> is the Python attribute: \<open>update_task_status_from_stages\<close>
  assigns it the result of \<open>dict.get\<close>, which is \<open>None\<close> when a state name is missing.
\<close>

record Task =
  task_id :: int
  name :: string
  description :: "string option"
  status_state_id :: "int option"
  due_date :: date
  completed_date :: "date option"
  priority :: string
  assigned_user_id :: "int option"
  created_by_id :: "int option"
  idempotency_key :: "string option"
  created_at :: "datetime option"
  updated_at :: "datetime option"
  is_deleted :: bool
  deleted_at :: "datetime option"

record TaskStage =
  stage_id :: int
  stage_task_id :: int
  stage_name :: string
  estimated_time_hours :: hours
  actual_time_hours :: "hours option"
  stage_status_state_id :: int
  order_number :: int
  start_date :: "date option"
  stage_completed_date :: "date option"
  stage_created_at :: "datetime option"
  stage_updated_at :: "datetime option"

record ArchivedTask =
  arch_task_id :: int
  arch_name :: string
  arch_description :: "string option"
  arch_status_state_id :: "int option"
  arch_due_date :: date
  arch_completed_date :: "date option"
  arch_priority :: string
  arch_assigned_user_id :: "int option"
  arch_created_by_id :: "int option"
  arch_idempotency_key :: "string option"
  arch_created_at :: "datetime option"
  arch_updated_at :: "datetime option"

record ArchivedTaskStage =
  archst_stage_id :: int
  archst_task_id :: int
  archst_stage_name :: string
  archst_estimated_time_hours :: hours
  archst_actual_time_hours :: "hours option"
  archst_status_state_id :: int
  archst_order_number :: int
  archst_start_date :: "date option"
  archst_completed_date :: "date option"
  archst_created_at :: "datetime option"
  archst_updated_at :: "datetime option"

text \<open>
  The body of a notification is an f-string over names, ids and dates. It is kept as the
  list of its pieces, unrendered: no property below reads inside a body.
\<close>

datatype piece = Lit string | Num int | Day date

record EmailLog =
  email_log_id :: int
  to_email :: "string option"
  subject :: string
  body :: "piece list"
  status :: string
  sent_at :: "datetime option"
  error_message :: "string option"

record database =
  states :: "State list"
  users :: "User list"
  tasks :: "Task list"
  task_stages :: "TaskStage list"
  archived_tasks :: "ArchivedTask list"
  archived_task_stages :: "ArchivedTaskStage list"
  email_logs :: "EmailLog list"

datatype error = HTTPException nat string

section \<open>Task service (app/services/tasks.py)\<close>

text \<open>\<open>{s.state_name: s.state_id for s in states}\<close>: a later row overwrites an earlier one.\<close>

definition get_all_states :: "database \<Rightarrow> string \<Rightarrow> int option" where
  "get_all_states db = map_of (rev (map (\<lambda>s. (state_name s, state_id s)) (states db)))"

text \<open>The relationship \<open>Task.stages\<close>: the stage rows whose foreign key is the task.\<close>

definition stages_of :: "database \<Rightarrow> int \<Rightarrow> TaskStage list" where
  "stages_of db tid = filter (\<lambda>s. stage_task_id s = tid) (task_stages db)"

text \<open>Writing a mutated row back: \<open>UPDATE ... WHERE\<close> primary key.\<close>

definition put_task :: "Task \<Rightarrow> database \<Rightarrow> database" where
  "put_task t db = db\<lparr>tasks := map (\<lambda>r. if task_id r = task_id t then t else r) (tasks db)\<rparr>"

definition put_stage :: "TaskStage \<Rightarrow> database \<Rightarrow> database" where
  "put_stage s db =
     db\<lparr>task_stages := map (\<lambda>r. if stage_id r = stage_id s then s else r) (task_stages db)\<rparr>"

text \<open>\<open>max(xs, default=d)\<close>\<close>

fun max_default :: "int list \<Rightarrow> int \<Rightarrow> int" where
  "max_default [] d = d"
| "max_default (x # xs) d = fold max xs x"

definition update_task_status_from_stages :: "database \<Rightarrow> int \<Rightarrow> date \<Rightarrow> database" where
  "update_task_status_from_stages db tid today =
     (case find (\<lambda>t. task_id t = tid) (tasks db) of
        None \<Rightarrow> db
      | Some task \<Rightarrow>
          let stages = stages_of db (task_id task);
              comp_id = get_all_states db ''completed'';
              overdue_id = get_all_states db ''overdue'';
              in_prog_id = get_all_states db ''in-progress'';
              all_completed = list_all (\<lambda>s. Some (stage_status_state_id s) = comp_id) stages
          in if all_completed \<and> stages \<noteq> [] then
               put_task (task\<lparr>status_state_id := comp_id,
                   completed_date :=
                     Some (max_default (List.map_filter stage_completed_date stages) today)\<rparr>) db
             else if due_date task < today \<and> status_state_id task \<noteq> comp_id then
               put_task (task\<lparr>status_state_id := overdue_id\<rparr>) db
             else if list_ex (\<lambda>s. Some (stage_status_state_id s) = in_prog_id) stages then
               put_task (task\<lparr>status_state_id := in_prog_id\<rparr>) db
             else db)"

record TaskStageUpdate =
  upd_status_state_id :: int
  upd_actual_time_hours :: "hours option"
  upd_start_date :: "date option"
  upd_completed_date :: "date option"

definition update_stage ::
  "database \<Rightarrow> int \<Rightarrow> TaskStageUpdate \<Rightarrow> date \<Rightarrow> error + (database \<times> TaskStage)" where
  "update_stage db sid update_data today =
     (case find (\<lambda>s. stage_id s = sid) (task_stages db) of
        None \<Rightarrow> Inl (HTTPException 404 ''Stage not found'')
      | Some stage \<Rightarrow>
          (case find (\<lambda>s. state_id s = upd_status_state_id update_data) (states db) of
             None \<Rightarrow> Inl (HTTPException 404 ''Invalid status ID'')
           | Some new_status \<Rightarrow>
               let s1 = stage\<lparr>stage_status_state_id := upd_status_state_id update_data\<rparr>;
                   s2 = (if state_name new_status = ''in-progress'' \<and> start_date s1 = None
                         then s1\<lparr>start_date := Some today\<rparr> else s1)
               in if state_name new_status = ''completed''
                     \<and> upd_actual_time_hours update_data = None \<and> actual_time_hours s2 = None
                  then Inl (HTTPException 400 ''Actual time hours required to complete stage'')
                  else
                    let s3 = (if state_name new_status = ''completed''
                              then s2\<lparr>stage_completed_date :=
                                     Some (case upd_completed_date update_data of
                                             Some d \<Rightarrow> d | None \<Rightarrow> today)\<rparr>
                              else s2);
                        s4 = (case upd_actual_time_hours update_data of
                                Some h \<Rightarrow> s3\<lparr>actual_time_hours := Some h\<rparr> | None \<Rightarrow> s3);
                        s5 = (case upd_start_date update_data of
                                Some d \<Rightarrow> s4\<lparr>start_date := Some d\<rparr> | None \<Rightarrow> s4);
                        s6 = (case upd_completed_date update_data of
                                Some d \<Rightarrow> s5\<lparr>stage_completed_date := Some d\<rparr> | None \<Rightarrow> s5)
                    in Inr (update_task_status_from_stages (put_stage s6 db)
                              (stage_task_id s6) today, s6)))"

section \<open>Sample data\<close>

definition canonical_states :: "State list" where
  "canonical_states =
     [\<lparr>state_id = 1, state_name = ''pending'', state_description = None\<rparr>,
      \<lparr>state_id = 2, state_name = ''in-progress'', state_description = None\<rparr>,
      \<lparr>state_id = 3, state_name = ''completed'', state_description = None\<rparr>,
      \<lparr>state_id = 4, state_name = ''overdue'', state_description = None\<rparr>]"

definition sample_user :: User where
  "sample_user = \<lparr>user_id = 7, username = ''ada'', email = ''ada@example.com'',
     full_name = Some ''Ada'', hashed_password = ''x'', user_is_deleted = False,
     user_deleted_at = None\<rparr>"

definition sample_task :: Task where
  "sample_task = \<lparr>task_id = 1, name = ''Release'', description = None,
     status_state_id = Some 1, due_date = 200, completed_date = None, priority = ''high'',
     assigned_user_id = Some 7, created_by_id = Some 7, idempotency_key = None,
     created_at = Some 1000, updated_at = None, is_deleted = False, deleted_at = None\<rparr>"

definition sample_stage :: TaskStage where
  "sample_stage = \<lparr>stage_id = 10, stage_task_id = 1, stage_name = ''Build'',
     estimated_time_hours = 5, actual_time_hours = None, stage_status_state_id = 1,
     order_number = 1, start_date = None, stage_completed_date = None,
     stage_created_at = Some 1000, stage_updated_at = None\<rparr>"

definition sample_db :: "Task list \<Rightarrow> TaskStage list \<Rightarrow> database" where
  "sample_db ts ss = \<lparr>states = canonical_states, users = [sample_user], tasks = ts,
     task_stages = ss, archived_tasks = [], archived_task_stages = [], email_logs = []\<rparr>"

section \<open>Stage deletion (app/routers/tasks.py)\<close>

definition get_task_by_id :: "database \<Rightarrow> int \<Rightarrow> error + (Task \<times> TaskStage list)" where
  "get_task_by_id db tid =
     (case find (\<lambda>t. task_id t = tid \<and> \<not> is_deleted t) (tasks db) of
        None \<Rightarrow> Inl (HTTPException 404 ''Task not found'')
      | Some task \<Rightarrow> Inr (task, stages_of db (task_id task)))"

text \<open>
  \<open>for i, s in enumerate(remaining_stages, start=1): s.order_number = i\<close>, each assignment
  written to the row with the stage's primary key.
\<close>

fun renumber :: "int \<Rightarrow> TaskStage list \<Rightarrow> TaskStage list \<Rightarrow> TaskStage list" where
  "renumber i [] rows = rows"
| "renumber i (s # ss) rows =
     renumber (i + 1) ss
       (map (\<lambda>r. if stage_id r = stage_id s then r\<lparr>order_number := i\<rparr> else r) rows)"

text \<open>
  The stage is deleted and the deletion committed; the remaining stages of the task are
  read back \<open>order_by(order_number)\<close> (a stable sort here: SQL leaves the order of equal
  keys open), renumbered and committed. The final \<open>get_task_by_id\<close> may still raise, after
  both commits, so the database is returned beside the result.
\<close>

definition delete_stage ::
  "database \<Rightarrow> int \<Rightarrow> database \<times> (error + (Task \<times> TaskStage list))" where
  "delete_stage db sid =
     (case find (\<lambda>s. stage_id s = sid) (task_stages db) of
        None \<Rightarrow> (db, Inl (HTTPException 404 ''Stage not found''))
      | Some stage \<Rightarrow>
          let tid = stage_task_id stage;
              db1 = db\<lparr>task_stages := filter (\<lambda>r. stage_id r \<noteq> stage_id stage) (task_stages db)\<rparr>;
              remaining_stages = sort_key order_number (stages_of db1 tid);
              db2 = db1\<lparr>task_stages := renumber 1 remaining_stages (task_stages db1)\<rparr>
          in (db2, get_task_by_id db2 tid))"

text \<open>The enumeration written into a list of stages, and as a table from stage id to number.\<close>

fun numbered :: "int \<Rightarrow> TaskStage list \<Rightarrow> TaskStage list" where
  "numbered i [] = []"
| "numbered i (s # ss) = s\<lparr>order_number := i\<rparr> # numbered (i + 1) ss"

fun numbering :: "int \<Rightarrow> TaskStage list \<Rightarrow> (int \<times> int) list" where
  "numbering i [] = []"
| "numbering i (s # ss) = (stage_id s, i) # numbering (i + 1) ss"

definition renumbered_row :: "int \<Rightarrow> TaskStage list \<Rightarrow> TaskStage \<Rightarrow> TaskStage" where
  "renumbered_row i ss r =
     (case map_of (numbering i ss) (stage_id r) of
        None \<Rightarrow> r | Some k \<Rightarrow> r\<lparr>order_number := k\<rparr>)"

section \<open>Notification queue and delivery worker (app/services/email_worker.py)\<close>

record EmailJob =
  job_log_id :: int
  job_subject :: string
  job_body :: "piece list"
  job_to_email :: "string option"

text \<open>The process state: the database and the in-memory \<open>email_queue\<close>, oldest job first.\<close>

record app_state =
  store :: database
  email_queue :: "EmailJob list"

text \<open>The id of a new \<open>EmailLog\<close> row comes from the database: one more than the largest.\<close>

definition next_log_id :: "EmailLog list \<Rightarrow> int" where
  "next_log_id logs = fold max (map email_log_id logs) 0 + 1"

definition enqueue_email ::
  "string \<Rightarrow> piece list \<Rightarrow> string option \<Rightarrow> app_state \<Rightarrow> app_state" where
  "enqueue_email subj bod to st =
     (let log_id = next_log_id (email_logs (store st));
          new_log = \<lparr>email_log_id = log_id, to_email = to, subject = subj, body = bod,
                     status = ''pending'', sent_at = None, error_message = None\<rparr>
      in st\<lparr>store := (store st)\<lparr>email_logs := email_logs (store st) @ [new_log]\<rparr>,
            email_queue := email_queue st
              @ [\<lparr>job_log_id = log_id, job_subject = subj, job_body = bod,
                   job_to_email = to\<rparr>]\<rparr>)"

text \<open>
  \<open>asyncio.gather(*email_tasks, return_exceptions=True)\<close> over \<open>enqueue_email\<close> coroutines:
  they are run here in list order. The interleaving the event loop picks can permute log ids
  and queue positions; nothing below depends on either.
\<close>

type_synonym email = "string \<times> piece list \<times> string option"

fun gather :: "email list \<Rightarrow> app_state \<Rightarrow> app_state" where
  "gather [] st = st"
| "gather ((subj, bod, to) # es) st = gather es (enqueue_email subj bod to st)"

subsection \<open>Mail transport (app/utils/email.py)\<close>

record Settings =
  EMAIL_HOST :: "string option"
  EMAIL_PORT :: int
  EMAIL_USER :: "string option"
  EMAIL_PASS :: "string option"
  EMAIL_FROM :: "string option"
  EMAIL_TO :: "string option"

record message =
  msg_from :: "string option"
  msg_to :: "string option"
  msg_subject :: string
  msg_body :: "piece list"

text \<open>Python truthiness of an optional string.\<close>

definition truthy :: "string option \<Rightarrow> bool" where
  "truthy s = (case s of None \<Rightarrow> False | Some v \<Rightarrow> v \<noteq> [])"

definition str_opt :: "string option \<Rightarrow> string" where
  "str_opt s = (case s of None \<Rightarrow> ''None'' | Some v \<Rightarrow> v)"

text \<open>
  The transport \<open>aiosmtplib.send\<close> is a parameter: \<open>smtp msg = Some e\<close> when it raises an
  exception whose text is \<open>e\<close>, \<open>None\<close> when it delivers. An exception is represented by its
  text throughout. The result of \<open>send_email_async\<close> is \<open>Inl e\<close> for an exception leaving the
  function and \<open>Inr\<close> of the printed line for a normal return; the whole body is inside
  \<open>try: ... except Exception\<close>, whose handler prints and returns.
\<close>

definition send_email_async ::
  "Settings \<Rightarrow> (message \<Rightarrow> string option) \<Rightarrow> string \<Rightarrow> piece list \<Rightarrow> string option
     \<Rightarrow> string + string" where
  "send_email_async settings smtp subj bod to =
     (if \<not> truthy (EMAIL_HOST settings)
      then Inr (''[EMAIL SKIPPED] Config missing - '' @ take 50 subj @ ''...'')
      else
        let to' = (if \<not> truthy to then EMAIL_TO settings else to);
            msg = \<lparr>msg_from = EMAIL_FROM settings, msg_to = to', msg_subject = subj,
                   msg_body = bod\<rparr>
        in case smtp msg of
             None \<Rightarrow> Inr (''[EMAIL SENT] To '' @ str_opt to' @ '': '' @ subj)
           | Some e \<Rightarrow> Inr (''[EMAIL FAILED] '' @ e @ '' - '' @ take 50 subj @ ''...''))"

subsection \<open>The worker loop\<close>

text \<open>
  The two status updates of the worker open a session each; \<open>db_fault log_id op = Some e\<close>
  when that session raises. The row is looked up by id and changed only if it exists.
\<close>

datatype db_op = MarkSent | MarkFailed

definition mark_log :: "int \<Rightarrow> (EmailLog \<Rightarrow> EmailLog) \<Rightarrow> database \<Rightarrow> database" where
  "mark_log log_id f d =
     d\<lparr>email_logs := map (\<lambda>r. if email_log_id r = log_id then f r else r) (email_logs d)\<rparr>"

definition process_job ::
  "Settings \<Rightarrow> (message \<Rightarrow> string option) \<Rightarrow> (int \<Rightarrow> db_op \<Rightarrow> string option) \<Rightarrow> datetime
     \<Rightarrow> EmailJob \<Rightarrow> database \<Rightarrow> string + database" where
  "process_job settings smtp db_fault now job d =
     (let attempt =
            (case send_email_async settings smtp (job_subject job) (job_body job)
                    (job_to_email job) of
               Inl e \<Rightarrow> Inl e
             | Inr printed \<Rightarrow>
                 (case db_fault (job_log_id job) MarkSent of
                    Some e \<Rightarrow> Inl e
                  | None \<Rightarrow>
                      Inr (mark_log (job_log_id job)
                             (\<lambda>r. r\<lparr>status := ''sent'', sent_at := Some now\<rparr>) d)))
      in case attempt of
           Inr d' \<Rightarrow> Inr d'
         | Inl e \<Rightarrow>
             (case db_fault (job_log_id job) MarkFailed of
                Some e' \<Rightarrow> Inl e'
              | None \<Rightarrow>
                  Inr (mark_log (job_log_id job)
                         (\<lambda>r. r\<lparr>status := ''failed'', error_message := Some e\<rparr>) d)))"

text \<open>
  \<open>while True: job = await email_queue.get(); ...\<close>. The loop has no exit: it ends either
  blocked on the empty queue, alive (\<open>Waiting\<close>), or with an exception that left the
  \<open>except\<close> handler (\<open>Died\<close>). The \<open>finally: email_queue.task_done()\<close> only counts
  the job as finished for \<open>Queue.join\<close> and is not part of the state.
\<close>

datatype worker = Waiting app_state | Died string app_state

fun drain ::
  "Settings \<Rightarrow> (message \<Rightarrow> string option) \<Rightarrow> (int \<Rightarrow> db_op \<Rightarrow> string option) \<Rightarrow> datetime
     \<Rightarrow> EmailJob list \<Rightarrow> database \<Rightarrow> worker" where
  "drain settings smtp db_fault now [] d = Waiting \<lparr>store = d, email_queue = []\<rparr>"
| "drain settings smtp db_fault now (job # rest) d =
     (case process_job settings smtp db_fault now job d of
        Inl e \<Rightarrow> Died e \<lparr>store = d, email_queue = rest\<rparr>
      | Inr d' \<Rightarrow> drain settings smtp db_fault now rest d')"

definition email_worker ::
  "Settings \<Rightarrow> (message \<Rightarrow> string option) \<Rightarrow> (int \<Rightarrow> db_op \<Rightarrow> string option) \<Rightarrow> datetime
     \<Rightarrow> app_state \<Rightarrow> worker" where
  "email_worker settings smtp db_fault now st =
     drain settings smtp db_fault now (email_queue st) (store st)"

section \<open>Overdue sweep (app/services/scheduler.py)\<close>

text \<open>\<open>str\<close> of an integer, for the f-strings that go into a subject line.\<close>

fun str_nat :: "nat \<Rightarrow> string" where
  "str_nat n = (if n < 10 then [''0123456789'' ! n]
                else str_nat (n div 10) @ [''0123456789'' ! (n mod 10)])"

definition str_int :: "int \<Rightarrow> string" where
  "str_int i = (if i < 0 then ''-'' @ str_nat (nat (- i)) else str_nat (nat i))"

text \<open>The relationship \<open>Task.assigned_user\<close>, and the two values read from it.\<close>

definition assigned_user :: "database \<Rightarrow> Task \<Rightarrow> User option" where
  "assigned_user d t =
     (case assigned_user_id t of
        None \<Rightarrow> None
      | Some uid \<Rightarrow> find (\<lambda>u. user_id u = uid) (users d))"

definition recipient :: "User option \<Rightarrow> string option" where
  "recipient u = (case u of None \<Rightarrow> None | Some v \<Rightarrow> Some (email v))"

definition recipient_name :: "User option \<Rightarrow> string" where
  "recipient_name u = (case u of None \<Rightarrow> ''User'' | Some v \<Rightarrow> str_opt (full_name v))"

text \<open>
  The three \<open>WHERE\<close> clauses. A comparison with a \<open>NULL\<close> status is not true in SQL, so a
  row whose status is \<open>None\<close> is not selected by \<open>status_state_id != comp_id\<close>.
\<close>

definition overdue_task_filter :: "int \<Rightarrow> date \<Rightarrow> Task \<Rightarrow> bool" where
  "overdue_task_filter comp_id today t =
     ((case status_state_id t of None \<Rightarrow> False | Some s \<Rightarrow> s \<noteq> comp_id)
      \<and> due_date t < today)"

definition overdue_stage_filter :: "Task list \<Rightarrow> int \<Rightarrow> date \<Rightarrow> TaskStage \<Rightarrow> bool" where
  "overdue_stage_filter ts comp_id today s =
     (stage_status_state_id s \<noteq> comp_id
      \<and> stage_completed_date s = None
      \<and> start_date s \<noteq> None
      \<and> list_ex (\<lambda>t. task_id t = stage_task_id s \<and> due_date t < today) ts)"

definition near_due_filter :: "int \<Rightarrow> date \<Rightarrow> Task \<Rightarrow> bool" where
  "near_due_filter comp_id today t =
     ((case status_state_id t of None \<Rightarrow> False | Some s \<Rightarrow> s \<noteq> comp_id)
      \<and> today + 1 \<le> due_date t \<and> due_date t \<le> today + 2)"

text \<open>The notifications; each is composed only \<open>if recipient\<close>.\<close>

definition task_overdue_email :: "database \<Rightarrow> Task \<Rightarrow> email list" where
  "task_overdue_email d t =
     (let u = assigned_user d t in
      if truthy (recipient u) then
        [(''Task Overdue: '' @ name t,
          [Lit ''Hello '', Lit (recipient_name u),
           Lit '',\<newline>\<newline>The following task is now OVERDUE:\<newline>Task ID: '', Num (task_id t),
           Lit ''\<newline>Name: '', Lit (name t), Lit ''\<newline>Due Date: '', Day (due_date t),
           Lit ''\<newline>Priority: '', Lit (priority t),
           Lit ''\<newline>\<newline>Please update the status or contact your manager.''],
          recipient u)]
      else [])"

definition stage_overdue_email :: "database \<Rightarrow> TaskStage \<Rightarrow> email list" where
  "stage_overdue_email d s =
     (case find (\<lambda>t. task_id t = stage_task_id s) (tasks d) of
        None \<Rightarrow> []
      | Some t \<Rightarrow>
          let u = assigned_user d t in
          if truthy (recipient u) then
            [(''Stage Overdue in Task '' @ str_int (stage_task_id s),
              [Lit ''Hello '', Lit (recipient_name u),
               Lit '',\<newline>\<newline>A stage in your task is overdue:\<newline>Stage: '', Lit (stage_name s),
               Lit ''\<newline>Task: '', Lit (name t), Lit '' (ID: '', Num (task_id t),
               Lit '')\<newline>\<newline>Please attend to this immediately.''],
              recipient u)]
          else [])"

definition reminder_email :: "database \<Rightarrow> Task \<Rightarrow> email list" where
  "reminder_email d t =
     (let u = assigned_user d t in
      if truthy (recipient u) then
        [(''Reminder: Task Due Soon - '' @ name t,
          [Lit ''Hello '', Lit (recipient_name u),
           Lit '',\<newline>\<newline>This is a reminder that your task is due soon:\<newline>Task ID: '',
           Num (task_id t), Lit ''\<newline>Name: '', Lit (name t), Lit ''\<newline>Due Date: '',
           Day (due_date t), Lit ''\<newline>\<newline>Please ensure it is completed on time.''],
          recipient u)]
      else [])"

text \<open>
  The two mutating loops, on the rows their queries select. Both run in the one session
  of the job; the stage query sees the task rows as the first loop left them.
\<close>

definition mark_tasks_overdue :: "int \<Rightarrow> int \<Rightarrow> date \<Rightarrow> database \<Rightarrow> database" where
  "mark_tasks_overdue comp_id overdue_id today d =
     d\<lparr>tasks := map (\<lambda>t. if overdue_task_filter comp_id today t
                           then (if status_state_id t \<noteq> Some overdue_id
                                 then t\<lparr>status_state_id := Some overdue_id\<rparr> else t)
                           else t) (tasks d)\<rparr>"

definition mark_stages_overdue :: "int \<Rightarrow> int \<Rightarrow> date \<Rightarrow> database \<Rightarrow> database" where
  "mark_stages_overdue comp_id overdue_id today d =
     d\<lparr>task_stages := map (\<lambda>s. if overdue_stage_filter (tasks d) comp_id today s
                                 then s\<lparr>stage_status_state_id := overdue_id\<rparr> else s)
                            (task_stages d)\<rparr>"

text \<open>
  The job is one \<open>try\<close> block with one \<open>db.commit()\<close>, after both loops, and one
  \<open>except Exception: await db.rollback()\<close>. \<open>raises p\<close> tells whether the persistence
  layer raises in part \<open>p\<close> of the job. The \<open>enqueue_email\<close> coroutines are created in the
  loops and awaited only by \<open>gather\<close>, after the commit; each uses a session of its own.
\<close>

datatype sweep_phase = LoadStates | TaskPhase | StagePhase | CommitPhase | ReminderPhase

definition check_overdue_and_notify ::
  "(sweep_phase \<Rightarrow> bool) \<Rightarrow> date \<Rightarrow> app_state \<Rightarrow> app_state" where
  "check_overdue_and_notify raises today st =
     (let d = store st in
      if raises LoadStates then st
      else
        case get_all_states d ''completed'' of
          None \<Rightarrow> st
        | Some comp_id \<Rightarrow>
            (case get_all_states d ''overdue'' of
               None \<Rightarrow> st
             | Some overdue_id \<Rightarrow>
                 if raises TaskPhase then st
                 else
                   let d1 = mark_tasks_overdue comp_id overdue_id today d;
                       task_emails = concat (map (task_overdue_email d)
                         (filter (overdue_task_filter comp_id today) (tasks d)))
                   in if raises StagePhase then st
                      else
                        let d2 = mark_stages_overdue comp_id overdue_id today d1;
                            stage_emails = concat (map (stage_overdue_email d1)
                              (filter (overdue_stage_filter (tasks d1) comp_id today)
                                 (task_stages d1)))
                        in if raises CommitPhase then st
                           else
                             let st1 = gather (task_emails @ stage_emails) (st\<lparr>store := d2\<rparr>)
                             in if raises ReminderPhase then st1
                                else gather (concat (map (reminder_email (store st1))
                                       (filter (near_due_filter comp_id today)
                                          (tasks (store st1))))) st1))"

section \<open>Archival job (app/services/scheduler.py)\<close>

definition archive_task_copy :: "Task \<Rightarrow> ArchivedTask" where
  "archive_task_copy task =
     \<lparr>arch_task_id = task_id task, arch_name = name task,
      arch_description = description task, arch_status_state_id = status_state_id task,
      arch_due_date = due_date task, arch_completed_date = completed_date task,
      arch_priority = priority task, arch_assigned_user_id = assigned_user_id task,
      arch_created_by_id = created_by_id task, arch_idempotency_key = idempotency_key task,
      arch_created_at = created_at task, arch_updated_at = updated_at task\<rparr>"

definition archive_stage_copy :: "TaskStage \<Rightarrow> ArchivedTaskStage" where
  "archive_stage_copy stage =
     \<lparr>archst_stage_id = stage_id stage, archst_task_id = stage_task_id stage,
      archst_stage_name = stage_name stage,
      archst_estimated_time_hours = estimated_time_hours stage,
      archst_actual_time_hours = actual_time_hours stage,
      archst_status_state_id = stage_status_state_id stage,
      archst_order_number = order_number stage, archst_start_date = start_date stage,
      archst_completed_date = stage_completed_date stage,
      archst_created_at = stage_created_at stage, archst_updated_at = stage_updated_at stage\<rparr>"

text \<open>
  \<open>raises p\<close> tells whether the persistence layer raises at point \<open>p\<close> of the job:
  while the state or the tasks are loaded, while the task with a given id is archived
  and deleted, or in the commit. The job is one \<open>try\<close> block whose handler rolls back.
\<close>

datatype archive_point = LoadCompletedState | SelectTasks | ArchiveTask int | CommitRun

definition archive_filter :: "int \<Rightarrow> date \<Rightarrow> Task \<Rightarrow> bool" where
  "archive_filter comp_id archive_threshold t =
     (status_state_id t = Some comp_id
      \<and> (case completed_date t of None \<Rightarrow> False | Some c \<Rightarrow> c \<le> archive_threshold))"

text \<open>
  The loop over \<open>tasks_to_archive\<close>, each task with the stages loaded with it. Deleting a
  task deletes its stages (\<open>cascade="all, delete-orphan"\<close>, \<open>ondelete="CASCADE"\<close>).
  \<open>None\<close> is an exception; the changes are those of the session, not yet committed.
\<close>

fun archive_loop ::
  "(archive_point \<Rightarrow> bool) \<Rightarrow> (Task \<times> TaskStage list) list \<Rightarrow> database \<Rightarrow> database option"
  where
  "archive_loop raises [] d = Some d"
| "archive_loop raises ((task, stages) # rest) d =
     (if raises (ArchiveTask (task_id task)) then None
      else archive_loop raises rest
             (d\<lparr>tasks := filter (\<lambda>r. task_id r \<noteq> task_id task) (tasks d),
                task_stages := filter (\<lambda>r. stage_task_id r \<noteq> task_id task) (task_stages d),
                archived_tasks := archived_tasks d @ [archive_task_copy task],
                archived_task_stages :=
                  archived_task_stages d @ map archive_stage_copy stages\<rparr>))"

definition archive_old_tasks :: "(archive_point \<Rightarrow> bool) \<Rightarrow> date \<Rightarrow> database \<Rightarrow> database" where
  "archive_old_tasks raises today d =
     (if raises LoadCompletedState then d
      else
        case find (\<lambda>s. state_name s = ''completed'') (states d) of
          None \<Rightarrow> d
        | Some completed_state \<Rightarrow>
            if raises SelectTasks then d
            else
              let archive_threshold = today - 30;
                  tasks_to_archive =
                    filter (archive_filter (state_id completed_state) archive_threshold) (tasks d)
              in if tasks_to_archive = [] then d
                 else
                   (case archive_loop raises
                           (map (\<lambda>t. (t, stages_of d (task_id t))) tasks_to_archive) d of
                      None \<Rightarrow> d
                    | Some d' \<Rightarrow> if raises CommitRun then d else d'))"

text \<open>A task completed on day 100, for the archival examples.\<close>

definition done_task :: "int \<Rightarrow> Task" where
  "done_task i = sample_task\<lparr>task_id := i, status_state_id := Some 3,
     completed_date := Some 100\<rparr>"

text \<open>A pending task due on day 200 with a started stage, and an empty queue.\<close>

definition late_state :: app_state where
  "late_state = \<lparr>store = sample_db [sample_task]
       [sample_stage\<lparr>stage_status_state_id := 2, start_date := Some 150\<rparr>],
     email_queue = []\<rparr>"

text \<open>A task due on day 200 that is already overdue, assigned to the sample user.\<close>

definition already_overdue_state :: app_state where
  "already_overdue_state =
     \<lparr>store = sample_db [sample_task\<lparr>status_state_id := Some 4\<rparr>] [], email_queue = []\<rparr>"

text \<open>A configured mail host, and the state right after one notification was enqueued.\<close>

definition mail_settings :: Settings where
  "mail_settings = \<lparr>EMAIL_HOST = Some ''smtp.example.com'', EMAIL_PORT = 587,
     EMAIL_USER = Some ''mailer'', EMAIL_PASS = Some ''secret'',
     EMAIL_FROM = Some ''tasks@example.com'', EMAIL_TO = None\<rparr>"

definition one_pending_state :: app_state where
  "one_pending_state =
     enqueue_email ''Task Overdue: Release'' [Lit ''Hello Ada''] (Some ''ada@example.com'')
       \<lparr>store = sample_db [] [], email_queue = []\<rparr>"

section \<open>Lookups after a row update\<close>

lemma find_put_row:
  assumes "find (\<lambda>r. key r = k) rows = Some r0" and "key r' = k"
  shows "find (\<lambda>r. key r = k) (map (\<lambda>r. if key r = k then r' else r) rows) = Some r'"
  using assms by (induction rows) (auto split: if_splits)

lemma find_put_task:
  assumes "find (\<lambda>t. task_id t = tid) (tasks db) = Some t0" and "task_id t = tid"
  shows "find (\<lambda>r. task_id r = tid) (tasks (put_task t db)) = Some t"
  using find_put_row [where key = task_id, OF assms] assms(2) by (simp add: put_task_def)

lemma find_Some_key:
  "find P xs = Some x \<Longrightarrow> P x \<and> x \<in> set xs"
  by (induction xs) (auto split: if_splits)

lemma max_default_Max:
  "ds \<noteq> [] \<Longrightarrow> max_default ds d = Max (set ds)"
proof (cases ds)
  case Nil
  assume "ds \<noteq> []"
  with Nil show ?thesis by simp
next
  case (Cons x xs)
  show ?thesis
    unfolding Cons max_default.simps by (rule Max.set_eq_fold [symmetric])
qed

section \<open>Task status propagation\<close>

text \<open>
  C3. A task that has at least one stage, every stage being in the state named
  \<open>completed\<close>, is set by \<open>update_task_status_from_stages\<close> to that state, and its
  completed_date becomes the largest completed_date of its stages, or today when no stage
  has one.
\<close>

theorem recompute_all_completed:
  assumes "find (\<lambda>t. task_id t = tid) (tasks db) = Some t"
    and "stages_of db tid \<noteq> []"
    and "get_all_states db ''completed'' = Some c"
    and "\<forall>s \<in> set (stages_of db tid). stage_status_state_id s = c"
  shows "\<exists>t'. find (\<lambda>r. task_id r = tid) (tasks (update_task_status_from_stages db tid today))
                 = Some t'
            \<and> status_state_id t' = Some c
            \<and> completed_date t' =
                Some (if List.map_filter stage_completed_date (stages_of db tid) = [] then today
                      else Max (set (List.map_filter stage_completed_date (stages_of db tid))))
            \<and> t' = t\<lparr>status_state_id := status_state_id t', completed_date := completed_date t'\<rparr>"
proof -
  have tid: "task_id t = tid"
    using find_Some_key [OF assms(1)] by simp
  let ?ds = "List.map_filter stage_completed_date (stages_of db tid)"
  let ?t' = "t\<lparr>status_state_id := Some c, completed_date := Some (max_default ?ds today)\<rparr>"
  have allc: "list_all (\<lambda>s. Some (stage_status_state_id s) = Some c) (stages_of db tid)"
    using assms(4) by (simp add: list_all_iff)
  have run: "update_task_status_from_stages db tid today = put_task ?t' db"
    using assms(1,2,3) allc tid by (simp add: update_task_status_from_stages_def Let_def)
  have "find (\<lambda>r. task_id r = tid) (tasks (put_task ?t' db)) = Some ?t'"
    using find_put_task [OF assms(1), of ?t'] tid by simp
  moreover have "max_default ?ds today = (if ?ds = [] then today else Max (set ?ds))"
    using max_default_Max [of ?ds today] by simp
  ultimately show ?thesis
    using run by simp
qed


lemma get_all_states_row:
  assumes "get_all_states db n = Some c"
  shows "\<exists>s \<in> set (states db). state_name s = n \<and> state_id s = c"
proof -
  have "(n, c) \<in> set (rev (map (\<lambda>s. (state_name s, state_id s)) (states db)))"
    using assms unfolding get_all_states_def by (rule map_of_SomeD)
  then show ?thesis by auto
qed

lemma get_all_states_inj:
  assumes "distinct (map state_id (states db))"
    and "get_all_states db n1 = Some c" and "get_all_states db n2 = Some c"
  shows "n1 = n2"
proof -
  obtain s1 where s1: "s1 \<in> set (states db)" "state_name s1 = n1" "state_id s1 = c"
    using get_all_states_row [OF assms(2)] by blast
  obtain s2 where s2: "s2 \<in> set (states db)" "state_name s2 = n2" "state_id s2 = c"
    using get_all_states_row [OF assms(3)] by blast
  have "inj_on state_id (set (states db))"
    using assms(1) by (simp add: distinct_map)
  then have "s1 = s2"
    using s1 s2 by (auto dest: inj_onD)
  then show ?thesis using s1 s2 by simp
qed

lemma task_stages_update_task_status [simp]:
  "task_stages (update_task_status_from_stages db tid today) = task_stages db"
  by (simp add: update_task_status_from_stages_def put_task_def Let_def split: option.splits)

text \<open>
  C7. On a task without stages \<open>update_task_status_from_stages\<close> does not set the status to
  \<open>completed\<close>: the status afterwards is the completed state only if it was before, and
  completed_date is left as it was. State ids are the primary key of the states table.
\<close>

theorem recompute_zero_stages_not_completed:
  assumes "find (\<lambda>t. task_id t = tid) (tasks db) = Some t"
    and "stages_of db tid = []"
    and "distinct (map state_id (states db))"
    and "get_all_states db ''completed'' = Some c"
  shows "\<exists>t'. find (\<lambda>r. task_id r = tid) (tasks (update_task_status_from_stages db tid today))
                 = Some t'
            \<and> (status_state_id t' = Some c \<longrightarrow> status_state_id t = Some c)
            \<and> completed_date t' = completed_date t"
proof -
  have tid: "task_id t = tid"
    using find_Some_key [OF assms(1)] by simp
  have ov: "get_all_states db ''overdue'' \<noteq> Some c"
    using get_all_states_inj [OF assms(3) _ assms(4), of "''overdue''"] by auto
  show ?thesis
  proof (cases "due_date t < today \<and> status_state_id t \<noteq> Some c")
    case True
    let ?t' = "t\<lparr>status_state_id := get_all_states db ''overdue''\<rparr>"
    have "update_task_status_from_stages db tid today = put_task ?t' db"
      using assms(1,2,4) tid True by (simp add: update_task_status_from_stages_def Let_def)
    moreover have "find (\<lambda>r. task_id r = tid) (tasks (put_task ?t' db)) = Some ?t'"
      using find_put_task [OF assms(1), of ?t'] tid by simp
    ultimately show ?thesis using ov by simp
  next
    case False
    have "update_task_status_from_stages db tid today = db"
      using assms(1,2,4) tid False by (auto simp: update_task_status_from_stages_def Let_def)
    then show ?thesis using assms(1) by simp
  qed
qed

section \<open>Stage engine\<close>

text \<open>
  C5. For a stage that exists and a target state named \<open>completed\<close>: \<open>update_stage\<close> raises
  the 400 error when neither the request nor the stored stage carries actual hours; when
  either does, it succeeds, and the stage it returns and stores has the target state and
  completed_date equal to the supplied date or, without one, today.
\<close>

theorem update_stage_completed:
  assumes "find (\<lambda>s. stage_id s = sid) (task_stages db) = Some st"
    and "find (\<lambda>s. state_id s = upd_status_state_id u) (states db) = Some ns"
    and "state_name ns = ''completed''"
  shows "(upd_actual_time_hours u = None \<and> actual_time_hours st = None \<longrightarrow>
            update_stage db sid u today
              = Inl (HTTPException 400 ''Actual time hours required to complete stage''))
       \<and> (upd_actual_time_hours u \<noteq> None \<or> actual_time_hours st \<noteq> None \<longrightarrow>
            (\<exists>db' s'. update_stage db sid u today = Inr (db', s')
               \<and> find (\<lambda>s. stage_id s = sid) (task_stages db') = Some s'
               \<and> stage_status_state_id s' = upd_status_state_id u
               \<and> stage_completed_date s'
                   = Some (case upd_completed_date u of Some d \<Rightarrow> d | None \<Rightarrow> today)))"
proof (intro conjI impI)
  assume "upd_actual_time_hours u = None \<and> actual_time_hours st = None"
  then show "update_stage db sid u today
      = Inl (HTTPException 400 ''Actual time hours required to complete stage'')"
    using assms by (simp add: update_stage_def Let_def)
next
  assume hrs: "upd_actual_time_hours u \<noteq> None \<or> actual_time_hours st \<noteq> None"
  have sid: "stage_id st = sid"
    using find_Some_key [OF assms(1)] by simp
  define s3 where "s3 = st\<lparr>stage_status_state_id := upd_status_state_id u,
      stage_completed_date := Some (case upd_completed_date u of Some d \<Rightarrow> d | None \<Rightarrow> today)\<rparr>"
  define s4 where "s4 = (case upd_actual_time_hours u of
      Some h \<Rightarrow> s3\<lparr>actual_time_hours := Some h\<rparr> | None \<Rightarrow> s3)"
  define s5 where "s5 = (case upd_start_date u of
      Some d \<Rightarrow> s4\<lparr>start_date := Some d\<rparr> | None \<Rightarrow> s4)"
  define s6 where "s6 = (case upd_completed_date u of
      Some d \<Rightarrow> s5\<lparr>stage_completed_date := Some d\<rparr> | None \<Rightarrow> s5)"
  have run: "update_stage db sid u today
      = Inr (update_task_status_from_stages (put_stage s6 db) (stage_task_id s6) today, s6)"
    using assms hrs unfolding update_stage_def s6_def s5_def s4_def s3_def
    by (auto simp: Let_def)
  have id6: "stage_id s6 = sid"
    using sid by (simp add: s6_def s5_def s4_def s3_def split: option.splits)
  have st6: "stage_status_state_id s6 = upd_status_state_id u"
    by (simp add: s6_def s5_def s4_def s3_def split: option.splits)
  have cd6: "stage_completed_date s6
      = Some (case upd_completed_date u of Some d \<Rightarrow> d | None \<Rightarrow> today)"
    by (simp add: s6_def s5_def s4_def s3_def split: option.splits)
  have "find (\<lambda>s. stage_id s = sid) (task_stages (put_stage s6 db)) = Some s6"
    using find_put_row [where key = stage_id, OF assms(1) id6] id6 by (simp add: put_stage_def)
  then show "\<exists>db' s'. update_stage db sid u today = Inr (db', s')
      \<and> find (\<lambda>s. stage_id s = sid) (task_stages db') = Some s'
      \<and> stage_status_state_id s' = upd_status_state_id u
      \<and> stage_completed_date s'
          = Some (case upd_completed_date u of Some d \<Rightarrow> d | None \<Rightarrow> today)"
    using run st6 cd6 by simp
qed

lemma sample_states:
  "get_all_states (sample_db ts ss) ''completed'' = Some 3"
  "get_all_states (sample_db ts ss) ''overdue'' = Some 4"
  "get_all_states (sample_db ts ss) ''in-progress'' = Some 2"
  by (simp_all add: get_all_states_def sample_db_def canonical_states_def)

theorem recompute_all_completed_witness:
  "find (\<lambda>t. task_id t = 1) (tasks (update_task_status_from_stages
      (sample_db [sample_task]
         [sample_stage\<lparr>stage_status_state_id := 3, stage_completed_date := Some 150\<rparr>,
          sample_stage\<lparr>stage_id := 11, stage_status_state_id := 3,
                        stage_completed_date := Some 160\<rparr>]) 1 170))
   = Some (sample_task\<lparr>status_state_id := Some 3, completed_date := Some 160\<rparr>)"
proof -
  let ?ss = "[sample_stage\<lparr>stage_status_state_id := 3, stage_completed_date := Some 150\<rparr>,
          sample_stage\<lparr>stage_id := 11, stage_status_state_id := 3,
                        stage_completed_date := Some 160\<rparr>]"
  let ?db = "sample_db [sample_task] ?ss"
  have so: "stages_of ?db 1 = ?ss"
    by (simp add: stages_of_def sample_db_def sample_stage_def)
  have h1: "find (\<lambda>t. task_id t = 1) (tasks ?db) = Some sample_task"
    by (simp add: sample_db_def sample_task_def)
  have h2: "stages_of ?db 1 \<noteq> []"
    unfolding so by simp
  have h3: "get_all_states ?db ''completed'' = Some 3"
    by (rule sample_states)
  have h4: "\<forall>s \<in> set (stages_of ?db 1). stage_status_state_id s = 3"
    unfolding so by simp
  have mf: "List.map_filter stage_completed_date ?ss = [150, 160]"
    by (simp add: List.map_filter_def sample_stage_def)
  from recompute_all_completed [OF h1 h2 h3 h4, of 170]
  show ?thesis
    unfolding so mf by auto
qed

theorem recompute_zero_stages_not_completed_witness:
  "find (\<lambda>t. task_id t = 1) (tasks (update_task_status_from_stages
      (sample_db [sample_task] []) 1 300))
   = Some (sample_task\<lparr>status_state_id := Some 4\<rparr>)"
proof -
  let ?db = "sample_db [sample_task] []"
  have h1: "find (\<lambda>t. task_id t = 1) (tasks ?db) = Some sample_task"
    by (simp add: sample_db_def sample_task_def)
  have h2: "stages_of ?db 1 = []"
    by (simp add: stages_of_def sample_db_def)
  have h3: "distinct (map state_id (states ?db))"
    by (simp add: sample_db_def canonical_states_def)
  have h4: "get_all_states ?db ''completed'' = Some 3"
    by (rule sample_states)
  have run: "update_task_status_from_stages ?db 1 300
      = put_task (sample_task\<lparr>status_state_id := Some 4\<rparr>) ?db"
    using h1 h2 sample_states [of "[sample_task]" "[]"]
    by (simp add: update_task_status_from_stages_def Let_def) (simp add: sample_task_def)
  from recompute_zero_stages_not_completed [OF h1 h2 h3 h4, of 300]
  show ?thesis
    unfolding run by (simp add: put_task_def sample_db_def sample_task_def)
qed

theorem update_stage_completed_witness:
  "update_stage (sample_db [sample_task] [sample_stage]) 10
      \<lparr>upd_status_state_id = 3, upd_actual_time_hours = None, upd_start_date = None,
       upd_completed_date = None\<rparr> 170
     = Inl (HTTPException 400 ''Actual time hours required to complete stage'')
   \<and> (\<exists>db'. update_stage (sample_db [sample_task] [sample_stage]) 10
      \<lparr>upd_status_state_id = 3, upd_actual_time_hours = Some 6, upd_start_date = None,
       upd_completed_date = None\<rparr> 170
     = Inr (db', sample_stage\<lparr>actual_time_hours := Some 6, stage_status_state_id := 3,
               stage_completed_date := Some 170\<rparr>))"
proof -
  let ?db = "sample_db [sample_task] [sample_stage]"
  let ?u1 = "\<lparr>upd_status_state_id = 3, upd_actual_time_hours = None, upd_start_date = None,
       upd_completed_date = None\<rparr>"
  let ?u2 = "\<lparr>upd_status_state_id = 3, upd_actual_time_hours = Some 6, upd_start_date = None,
       upd_completed_date = None\<rparr>"
  let ?ns = "\<lparr>state_id = 3, state_name = ''completed'', state_description = None\<rparr>"
  have h1: "find (\<lambda>s. stage_id s = 10) (task_stages ?db) = Some sample_stage"
    by (simp add: sample_db_def sample_stage_def)
  have h2: "find (\<lambda>s. state_id s = upd_status_state_id ?u1) (states ?db) = Some ?ns"
    by (simp add: sample_db_def canonical_states_def)
  have h2': "find (\<lambda>s. state_id s = upd_status_state_id ?u2) (states ?db) = Some ?ns"
    by (simp add: sample_db_def canonical_states_def)
  have h3: "state_name ?ns = ''completed''"
    by simp
  have a: "upd_actual_time_hours ?u1 = None \<and> actual_time_hours sample_stage = None"
    by (simp add: sample_stage_def)
  have b: "upd_actual_time_hours ?u2 \<noteq> None \<or> actual_time_hours sample_stage \<noteq> None"
    by simp
  have ret: "map_sum id snd (update_stage ?db 10 ?u2 170)
      = Inr (sample_stage\<lparr>actual_time_hours := Some 6, stage_status_state_id := 3,
               stage_completed_date := Some 170\<rparr>)"
    using h1 h2' by (simp add: update_stage_def Let_def)
  from update_stage_completed [OF h1 h2 h3, of 170] a
  have "update_stage ?db 10 ?u1 170
      = Inl (HTTPException 400 ''Actual time hours required to complete stage'')"
    by blast
  moreover from update_stage_completed [OF h1 h2' h3, of 170] b
  obtain db' s' where "update_stage ?db 10 ?u2 170 = Inr (db', s')"
    by blast
  ultimately show ?thesis
    using ret by auto
qed

section \<open>Renumbering after a deletion\<close>

lemma numbering_keys: "map fst (numbering i ss) = map stage_id ss"
  by (induction ss arbitrary: i) simp_all

lemma renumbered_row_stage_id [simp]: "stage_id (renumbered_row i ss r) = stage_id r"
  by (simp add: renumbered_row_def split: option.splits)

lemma renumbered_row_task_id [simp]: "stage_task_id (renumbered_row i ss r) = stage_task_id r"
  by (simp add: renumbered_row_def split: option.splits)

lemma renumber_map:
  "distinct (map stage_id ss) \<Longrightarrow> renumber i ss rows = map (renumbered_row i ss) rows"
proof (induction ss arbitrary: i rows)
  case Nil
  show ?case by (simp add: renumbered_row_def)
next
  case (Cons s ss)
  have "stage_id s \<notin> set (map fst (numbering (i + 1) ss))"
    using Cons.prems unfolding numbering_keys by simp
  then have fresh: "map_of (numbering (i + 1) ss) (stage_id s) = None"
    by (simp add: map_of_eq_None_iff)
  have "renumbered_row (i + 1) ss
          (if stage_id r = stage_id s then r\<lparr>order_number := i\<rparr> else r)
        = renumbered_row i (s # ss) r" for r
    using fresh by (simp add: renumbered_row_def)
  then show ?case
    using Cons.IH [of "i + 1"] Cons.prems by (simp add: comp_def)
qed

lemma renumbered_rows_numbered:
  "distinct (map stage_id ss) \<Longrightarrow> map (renumbered_row i ss) ss = numbered i ss"
proof (induction ss arbitrary: i)
  case Nil
  show ?case by simp
next
  case (Cons s ss)
  have "renumbered_row i (s # ss) r = renumbered_row (i + 1) ss r" if "r \<in> set ss" for r
  proof -
    have "stage_id r \<in> set (map stage_id ss)"
      using that by simp
    then have "stage_id r \<noteq> stage_id s"
      using Cons.prems by auto
    then show ?thesis by (simp add: renumbered_row_def)
  qed
  then have "map (renumbered_row i (s # ss)) ss = map (renumbered_row (i + 1) ss) ss"
    by simp
  moreover have "renumbered_row i (s # ss) s = s\<lparr>order_number := i\<rparr>"
    by (simp add: renumbered_row_def)
  moreover have "map (renumbered_row (i + 1) ss) ss = numbered (i + 1) ss"
    using Cons.IH [of "i + 1"] Cons.prems by simp
  ultimately show ?case
    by simp
qed

lemma numbered_order: "map order_number (numbered i ss) = [i..i + int (length ss) - 1]"
proof (induction ss arbitrary: i)
  case Nil
  show ?case by simp
next
  case (Cons s ss)
  have "[i..i + int (length (s # ss)) - 1] = i # [i + 1..i + 1 + int (length ss) - 1]"
    by (subst upto.simps) simp
  then show ?case using Cons.IH [of "i + 1"] by simp
qed

lemma numbered_ids: "map stage_id (numbered i ss) = map stage_id ss"
  by (induction ss arbitrary: i) simp_all

lemma filter_same_key:
  "distinct (map f xs) \<Longrightarrow> k \<in> set xs \<Longrightarrow> filter (\<lambda>x. f k = f x) xs = [k]"
proof (induction xs)
  case Nil
  then show ?case by simp
next
  case (Cons x xs)
  show ?case
  proof (cases "k = x")
    case True
    have "filter (\<lambda>y. f x = f y) xs = []"
      using Cons.prems(1) by (auto simp: filter_empty_conv)
    with True show ?thesis by simp
  next
    case False
    then have kxs: "k \<in> set xs"
      using Cons.prems(2) by simp
    then have "f k \<in> set (map f xs)"
      by simp
    then have "f k \<noteq> f x"
      using Cons.prems(1) by auto
    then show ?thesis
      using Cons.IH [OF _ kxs] Cons.prems(1) by simp
  qed
qed

lemma sort_key_of_permutation:
  assumes "mset xs = mset ys" and "sorted (map f ys)" and "distinct (map f ys)"
  shows "sort_key f xs = ys"
proof (rule properties_for_sort_key)
  show "mset ys = mset xs" using assms(1) by simp
  show "sorted (map f ys)" by (rule assms(2))
  fix k assume k: "k \<in> set ys"
  have "mset (map f xs) = mset (map f ys)"
    using assms(1) by (metis mset_map)
  then have dx: "distinct (map f xs)"
    using assms(3) by (metis mset_eq_imp_distinct_iff)
  have kx: "k \<in> set xs"
    using k assms(1) by (metis mset_eq_setD)
  show "filter (\<lambda>x. f k = f x) ys = filter (\<lambda>x. f k = f x) xs"
    using filter_same_key [OF assms(3) k] filter_same_key [OF dx kx] by simp
qed

lemma delete_stage_run:
  assumes "find (\<lambda>s. stage_id s = sid) (task_stages db) = Some st"
  shows "task_stages (fst (delete_stage db sid))
     = renumber 1 (sort_key order_number
           (filter (\<lambda>r. stage_id r \<noteq> sid) (stages_of db (stage_task_id st))))
         (filter (\<lambda>r. stage_id r \<noteq> sid) (task_stages db))"
proof -
  have "stage_id st = sid"
    using find_Some_key [OF assms] by simp
  then show ?thesis
    using assms by (simp add: delete_stage_def Let_def stages_of_def conj_commute)
qed

text \<open>
  C8. \<open>delete_stage\<close> removes the stage and leaves the remaining stages of its task with
  the order numbers 1..N, N being one less than before, in the order their previous
  order numbers gave them. Stage ids are the primary key of the stage table.
\<close>

theorem delete_stage_renumbers:
  assumes "find (\<lambda>s. stage_id s = sid) (task_stages db) = Some st"
    and "distinct (map stage_id (task_stages db))"
  shows "sid \<notin> stage_id ` set (task_stages (fst (delete_stage db sid)))
       \<and> length (stages_of (fst (delete_stage db sid)) (stage_task_id st))
           = length (stages_of db (stage_task_id st)) - 1
       \<and> map order_number
           (sort_key order_number (stages_of (fst (delete_stage db sid)) (stage_task_id st)))
           = [1..int (length (stages_of (fst (delete_stage db sid)) (stage_task_id st)))]
       \<and> map stage_id
           (sort_key order_number (stages_of (fst (delete_stage db sid)) (stage_task_id st)))
           = map stage_id (sort_key order_number
               (filter (\<lambda>r. stage_id r \<noteq> sid) (stages_of db (stage_task_id st))))"
proof -
  let ?tid = "stage_task_id st"
  let ?rows1 = "filter (\<lambda>r. stage_id r \<noteq> sid) (task_stages db)"
  let ?F = "filter (\<lambda>s. stage_task_id s = ?tid) ?rows1"
  let ?rem = "sort_key order_number ?F"
  let ?db' = "fst (delete_stage db sid)"
  have F: "filter (\<lambda>r. stage_id r \<noteq> sid) (stages_of db ?tid) = ?F"
    by (simp add: stages_of_def conj_commute)
  have d1: "distinct (map stage_id ?rows1)"
    using assms(2) by (rule distinct_map_filter)
  have dF: "distinct (map stage_id ?F)"
    using d1 by (rule distinct_map_filter)
  have "mset (map stage_id ?rem) = mset (map stage_id ?F)"
    by simp
  then have drem: "distinct (map stage_id ?rem)"
    using dF by (metis mset_eq_imp_distinct_iff)
  have rows: "task_stages ?db' = map (renumbered_row 1 ?rem) ?rows1"
    using delete_stage_run [OF assms(1)] renumber_map [OF drem] by (simp add: F)
  have so: "stages_of ?db' ?tid = map (renumbered_row 1 ?rem) ?F"
    unfolding stages_of_def rows by (simp add: filter_map comp_def)
  have "mset (map g (sort_key order_number xs)) = mset (map g xs)"
    for g :: "TaskStage \<Rightarrow> TaskStage" and xs
    by simp
  then have "mset (map (renumbered_row 1 ?rem) ?F) = mset (map (renumbered_row 1 ?rem) ?rem)"
    by (rule sym)
  then have perm: "mset (stages_of ?db' ?tid) = mset (numbered 1 ?rem)"
    unfolding so renumbered_rows_numbered [OF drem] .
  have "sorted (map order_number (numbered 1 ?rem))"
    and "distinct (map order_number (numbered 1 ?rem))"
    by (simp_all add: numbered_order)
  then have sorted: "sort_key order_number (stages_of ?db' ?tid) = numbered 1 ?rem"
    using perm by (rule sort_key_of_permutation [rotated])
  have len: "length (stages_of ?db' ?tid) = length ?rem"
    using so by simp
  have sid: "stage_id st = sid" and mem: "st \<in> set (task_stages db)"
    using find_Some_key [OF assms(1)] by simp_all
  have one: "filter (\<lambda>r. stage_id st = stage_id r) (stages_of db ?tid) = [st]"
    unfolding stages_of_def
    using assms(2) mem by (intro filter_same_key) (auto intro: distinct_map_filter)
  have "filter (\<lambda>r. stage_id r = sid) (stages_of db ?tid)
      = filter (\<lambda>r. stage_id st = stage_id r) (stages_of db ?tid)"
    by (rule filter_cong) (auto simp: sid)
  then have "filter (\<lambda>r. stage_id r = sid) (stages_of db ?tid) = [st]"
    using one by (rule trans)
  then have "length (filter (\<lambda>r. stage_id r = sid) (stages_of db ?tid)) = 1"
    by simp
  moreover have "length (stages_of db ?tid)
      = length (filter (\<lambda>r. stage_id r = sid) (stages_of db ?tid))
        + length (filter (\<lambda>r. stage_id r \<noteq> sid) (stages_of db ?tid))"
    using sum_length_filter_compl [of "\<lambda>r. stage_id r = sid" "stages_of db ?tid"] by simp
  ultimately have n: "length (stages_of ?db' ?tid) = length (stages_of db ?tid) - 1"
    using len F by simp
  have "map stage_id (task_stages ?db') = map stage_id ?rows1"
    unfolding rows by simp
  then have "set (map stage_id (task_stages ?db')) = set (map stage_id ?rows1)"
    by (rule arg_cong)
  then have gone: "sid \<notin> stage_id ` set (task_stages ?db')"
    by auto
  show ?thesis
    using gone n sorted len by (simp add: numbered_order numbered_ids F)
qed

theorem delete_stage_renumbers_witness:
  "map (\<lambda>s. (stage_id s, order_number s))
     (task_stages (fst (delete_stage
        (sample_db [sample_task]
           [sample_stage, sample_stage\<lparr>stage_id := 11, order_number := 2\<rparr>,
            sample_stage\<lparr>stage_id := 12, order_number := 3\<rparr>]) 11)))
   = [(10, 1), (12, 2)]"
proof -
  let ?ss = "[sample_stage, sample_stage\<lparr>stage_id := 11, order_number := 2\<rparr>,
            sample_stage\<lparr>stage_id := 12, order_number := 3\<rparr>]"
  let ?db = "sample_db [sample_task] ?ss"
  have h1: "find (\<lambda>s. stage_id s = 11) (task_stages ?db)
      = Some (sample_stage\<lparr>stage_id := 11, order_number := 2\<rparr>)"
    by (simp add: sample_db_def sample_stage_def)
  have h2: "distinct (map stage_id (task_stages ?db))"
    by (simp add: sample_db_def sample_stage_def)
  have run: "task_stages (fst (delete_stage ?db 11))
      = [sample_stage, sample_stage\<lparr>stage_id := 12, order_number := 2\<rparr>]"
    by (simp add: delete_stage_def Let_def stages_of_def sample_db_def sample_stage_def)
  from delete_stage_renumbers [OF h1 h2]
  show ?thesis
    unfolding run by (simp add: sample_stage_def)
qed

section \<open>Archival\<close>

lemma archive_loop_all_or_nothing:
  "archive_loop raises xs d = None \<or> archive_loop raises xs d = archive_loop (\<lambda>_. False) xs d"
proof (induction xs arbitrary: d)
  case Nil
  show ?case by simp
next
  case (Cons x xs)
  obtain task stages where x: "x = (task, stages)"
    by (cases x)
  show ?case
  proof (cases "raises (ArchiveTask (task_id task))")
    case True
    then show ?thesis by (simp add: x)
  next
    case False
    then show ?thesis
      unfolding x using Cons.IH by simp
  qed
qed




lemma sample_db_sel [simp]:
  "states (sample_db ts ss) = canonical_states"
  "users (sample_db ts ss) = [sample_user]"
  "tasks (sample_db ts ss) = ts"
  "task_stages (sample_db ts ss) = ss"
  "archived_tasks (sample_db ts ss) = []"
  "archived_task_stages (sample_db ts ss) = []"
  "email_logs (sample_db ts ss) = []"
  by (simp_all add: sample_db_def)

lemma sample_completed_state:
  "find (\<lambda>s. state_name s = ''completed'') canonical_states
     = Some \<lparr>state_id = 3, state_name = ''completed'', state_description = None\<rparr>"
  by (simp add: canonical_states_def)



lemma filter_absent_key: "k \<notin> f ` set xs \<Longrightarrow> filter (\<lambda>a. f a = k) xs = []"
  by (induction xs) auto

lemma archive_loop_no_fault:
  "archive_loop (\<lambda>_. False) (map (\<lambda>t. (t, ld t)) ts) d
     = Some (d\<lparr>tasks := filter (\<lambda>r. task_id r \<notin> task_id ` set ts) (tasks d),
               task_stages := filter (\<lambda>r. stage_task_id r \<notin> task_id ` set ts) (task_stages d),
               archived_tasks := archived_tasks d @ map archive_task_copy ts,
               archived_task_stages := archived_task_stages d
                 @ concat (map (\<lambda>t. map archive_stage_copy (ld t)) ts)\<rparr>)"
proof (induction ts arbitrary: d)
  case Nil
  show ?case by simp
next
  case (Cons t ts)
  have "filter (\<lambda>r. task_id r \<notin> task_id ` set ts) (filter (\<lambda>r. task_id r \<noteq> task_id t) xs)
      = filter (\<lambda>r. task_id r \<notin> task_id ` set (t # ts)) xs" for xs
    by (induction xs) auto
  moreover have "filter (\<lambda>r. stage_task_id r \<notin> task_id ` set ts)
        (filter (\<lambda>r. stage_task_id r \<noteq> task_id t) ys)
      = filter (\<lambda>r. stage_task_id r \<notin> task_id ` set (t # ts)) ys" for ys
    by (induction ys) auto
  ultimately show ?case
    by (simp add: Cons.IH)
qed

lemma archived_stages_of_task:
  assumes "\<And>t. t \<in> set ts \<Longrightarrow> \<forall>s \<in> set (ld t). stage_task_id s = task_id t"
    and "distinct (map task_id ts)" and "t \<in> set ts"
  shows "filter (\<lambda>a. archst_task_id a = task_id t)
           (concat (map (\<lambda>t. map archive_stage_copy (ld t)) ts))
         = map archive_stage_copy (ld t)"
  using assms
proof (induction ts)
  case Nil
  then show ?case by simp
next
  case (Cons x xs)
  have own: "filter (\<lambda>a. archst_task_id a = task_id x) (map archive_stage_copy (ld x))
      = map archive_stage_copy (ld x)"
    using Cons.prems(1) [of x] by (simp add: filter_map comp_def archive_stage_copy_def)
  have other: "filter (\<lambda>a. archst_task_id a = k) (map archive_stage_copy (ld y)) = []"
    if "y \<in> set (x # xs)" "task_id y \<noteq> k" for y k
    using Cons.prems(1) [OF that(1)] that(2)
    by (auto simp: filter_empty_conv archive_stage_copy_def)
  show ?case
  proof (cases "t = x")
    case True
    have "filter (\<lambda>a. archst_task_id a = task_id x)
        (concat (map (\<lambda>t. map archive_stage_copy (ld t)) xs)) = []"
    proof -
      have "task_id x \<notin> task_id ` set xs"
        using Cons.prems(2) by simp
      then have "\<forall>y \<in> set xs. task_id y \<noteq> task_id x"
        by (metis image_eqI)
      then have "\<forall>y \<in> set xs.
          filter (\<lambda>a. archst_task_id a = task_id x) (map archive_stage_copy (ld y)) = []"
        using other by simp
      then show ?thesis
        by (simp add: filter_concat comp_def)
    qed
    then show ?thesis using own True by simp
  next
    case False
    then have txs: "t \<in> set xs"
      using Cons.prems(3) by simp
    moreover have "task_id x \<notin> task_id ` set xs"
      using Cons.prems(2) by simp
    ultimately have "task_id x \<noteq> task_id t"
      by (metis image_eqI)
    then have "filter (\<lambda>a. archst_task_id a = task_id t) (map archive_stage_copy (ld x)) = []"
      using other [of x "task_id t"] by simp
    moreover have "filter (\<lambda>a. archst_task_id a = task_id t)
        (concat (map (\<lambda>t. map archive_stage_copy (ld t)) xs)) = map archive_stage_copy (ld t)"
      using Cons.IH Cons.prems txs by simp
    ultimately show ?thesis by simp
  qed
qed


text \<open>
  C9 (as amended). A run without failure, on a task in the completed state whose
  completed_date is at most today - 30: the task and its stages leave the live tables; the
  archive holds exactly one ArchivedTask for it, carrying the task's id and every task
  field that ArchivedTask has (is_deleted and deleted_at have no column there), and exactly
  one ArchivedTaskStage per original stage, carrying every stage field. Task ids are the
  primary key of the live table, and the archive holds no row of that id before the run.
\<close>

theorem archive_round_trip:
  assumes "find (\<lambda>s. state_name s = ''completed'') (states d) = Some cs"
    and "t \<in> set (tasks d)"
    and "status_state_id t = Some (state_id cs)"
    and "completed_date t = Some c" and "c \<le> today - 30"
    and "distinct (map task_id (tasks d))"
    and "task_id t \<notin> arch_task_id ` set (archived_tasks d)"
    and "task_id t \<notin> archst_task_id ` set (archived_task_stages d)"
  shows "task_id t \<notin> task_id ` set (tasks (archive_old_tasks (\<lambda>_. False) today d))
     \<and> stages_of (archive_old_tasks (\<lambda>_. False) today d) (task_id t) = []
     \<and> filter (\<lambda>a. arch_task_id a = task_id t)
          (archived_tasks (archive_old_tasks (\<lambda>_. False) today d))
        = [\<lparr>arch_task_id = task_id t, arch_name = name t, arch_description = description t,
            arch_status_state_id = status_state_id t, arch_due_date = due_date t,
            arch_completed_date = completed_date t, arch_priority = priority t,
            arch_assigned_user_id = assigned_user_id t, arch_created_by_id = created_by_id t,
            arch_idempotency_key = idempotency_key t, arch_created_at = created_at t,
            arch_updated_at = updated_at t\<rparr>]
     \<and> filter (\<lambda>a. archst_task_id a = task_id t)
          (archived_task_stages (archive_old_tasks (\<lambda>_. False) today d))
        = map (\<lambda>s. \<lparr>archst_stage_id = stage_id s, archst_task_id = stage_task_id s,
                     archst_stage_name = stage_name s,
                     archst_estimated_time_hours = estimated_time_hours s,
                     archst_actual_time_hours = actual_time_hours s,
                     archst_status_state_id = stage_status_state_id s,
                     archst_order_number = order_number s, archst_start_date = start_date s,
                     archst_completed_date = stage_completed_date s,
                     archst_created_at = stage_created_at s,
                     archst_updated_at = stage_updated_at s\<rparr>)
            (stages_of d (task_id t))"
proof -
  let ?ts = "filter (archive_filter (state_id cs) (today - 30)) (tasks d)"
  let ?ld = "\<lambda>t. stages_of d (task_id t)"
  let ?d' = "archive_old_tasks (\<lambda>_. False) today d"
  have sel: "t \<in> set ?ts"
    using assms(2,3,4,5) by (simp add: archive_filter_def)
  then have ne: "?ts \<noteq> []"
    by (metis empty_iff list.set(1))
  have dts: "distinct (map task_id ?ts)"
    using assms(6) by (rule distinct_map_filter)
  have run: "?d' = d\<lparr>tasks := filter (\<lambda>r. task_id r \<notin> task_id ` set ?ts) (tasks d),
               task_stages := filter (\<lambda>r. stage_task_id r \<notin> task_id ` set ?ts) (task_stages d),
               archived_tasks := archived_tasks d @ map archive_task_copy ?ts,
               archived_task_stages := archived_task_stages d
                 @ concat (map (\<lambda>t. map archive_stage_copy (?ld t)) ?ts)\<rparr>"
    using assms(1) ne archive_loop_no_fault [of ?ld ?ts d]
    by (simp add: archive_old_tasks_def Let_def)
  have tin: "task_id t \<in> task_id ` set ?ts"
    using sel by (rule imageI)
  have tasks': "tasks ?d' = filter (\<lambda>r. task_id r \<notin> task_id ` set ?ts) (tasks d)"
    by (subst run) simp
  have stages': "task_stages ?d'
      = filter (\<lambda>r. stage_task_id r \<notin> task_id ` set ?ts) (task_stages d)"
    by (subst run) simp
  have live: "task_id t \<notin> task_id ` set (tasks ?d')"
  proof
    assume "task_id t \<in> task_id ` set (tasks ?d')"
    then obtain r where "r \<in> set (tasks ?d')" and "task_id t = task_id r"
      by auto
    then show False
      using tin by (simp add: tasks')
  qed
  have "stage_task_id s \<noteq> task_id t" if "s \<in> set (task_stages ?d')" for s
    using that tin unfolding stages' by auto
  then have stages: "stages_of ?d' (task_id t) = []"
    by (simp add: stages_of_def filter_empty_conv)
  have old_a: "filter (\<lambda>a. arch_task_id a = task_id t) (archived_tasks d) = []"
    using assms(7) by (rule filter_absent_key)
  have "filter (\<lambda>x. task_id x = task_id t) ?ts = filter (\<lambda>x. task_id t = task_id x) ?ts"
    by (rule filter_cong) auto
  then have one: "filter (\<lambda>x. task_id x = task_id t) ?ts = [t]"
    using filter_same_key [OF dts sel] by (rule trans)
  have cp: "arch_task_id (archive_task_copy x) = task_id x" for x
    by (simp add: archive_task_copy_def)
  have "filter (\<lambda>a. arch_task_id a = task_id t) (map archive_task_copy ?ts)
      = map archive_task_copy (filter (\<lambda>x. task_id x = task_id t) ?ts)"
    by (simp only: filter_map comp_def cp)
  then have new_a: "filter (\<lambda>a. arch_task_id a = task_id t) (map archive_task_copy ?ts)
      = [archive_task_copy t]"
    unfolding one by simp
  have "archived_tasks ?d' = archived_tasks d @ map archive_task_copy ?ts"
    by (subst run) simp
  then have arch: "filter (\<lambda>a. arch_task_id a = task_id t) (archived_tasks ?d')
      = [archive_task_copy t]"
    using old_a new_a by simp
  have old_s: "filter (\<lambda>a. archst_task_id a = task_id t) (archived_task_stages d) = []"
    using assms(8) by (rule filter_absent_key)
  have new_s: "filter (\<lambda>a. archst_task_id a = task_id t)
        (concat (map (\<lambda>t. map archive_stage_copy (?ld t)) ?ts))
      = map archive_stage_copy (?ld t)"
    using dts sel by (intro archived_stages_of_task) (simp_all add: stages_of_def)
  have "archived_task_stages ?d' = archived_task_stages d
      @ concat (map (\<lambda>t. map archive_stage_copy (?ld t)) ?ts)"
    by (subst run) simp
  then have archst: "filter (\<lambda>a. archst_task_id a = task_id t) (archived_task_stages ?d')
      = map archive_stage_copy (stages_of d (task_id t))"
    using old_s new_s by simp
  show ?thesis
    using live stages arch archst
    by (simp add: archive_task_copy_def archive_stage_copy_def [abs_def])
qed

text \<open>
  A soft-deleted task and a task that differs from it only in is_deleted and deleted_at
  leave the same archive: the archived record does not carry these two task fields.
\<close>

theorem archive_drops_soft_delete_counterexample:
  "archived_tasks (archive_old_tasks (\<lambda>_. False) 300
       (sample_db [(done_task 1)\<lparr>is_deleted := True, deleted_at := Some 250\<rparr>] []))
     = archived_tasks (archive_old_tasks (\<lambda>_. False) 300 (sample_db [done_task 1] []))
   \<and> length (archived_tasks (archive_old_tasks (\<lambda>_. False) 300
       (sample_db [done_task 1] []))) = 1
   \<and> is_deleted ((done_task 1)\<lparr>is_deleted := True, deleted_at := Some 250\<rparr>)
       \<noteq> is_deleted (done_task 1)
   \<and> deleted_at ((done_task 1)\<lparr>is_deleted := True, deleted_at := Some 250\<rparr>)
       \<noteq> deleted_at (done_task 1)"
proof -
  have el: "archive_filter 3 270 (done_task 1)"
    "archive_filter 3 270 ((done_task 1)\<lparr>is_deleted := True, deleted_at := Some 250\<rparr>)"
    by (simp_all add: archive_filter_def done_task_def)
  show ?thesis
    by (simp add: archive_old_tasks_def sample_completed_state Let_def el
        archive_task_copy_def)
      (simp add: done_task_def sample_task_def)
qed

theorem archive_round_trip_witness:
  "archived_tasks (archive_old_tasks (\<lambda>_. False) 300
       (sample_db [done_task 1, sample_task\<lparr>task_id := 2, name := ''Audit''\<rparr>]
          [sample_stage, sample_stage\<lparr>stage_id := 11, stage_task_id := 2\<rparr>]))
     = [\<lparr>arch_task_id = 1, arch_name = ''Release'', arch_description = None,
         arch_status_state_id = Some 3, arch_due_date = 200, arch_completed_date = Some 100,
         arch_priority = ''high'', arch_assigned_user_id = Some 7,
         arch_created_by_id = Some 7, arch_idempotency_key = None,
         arch_created_at = Some 1000, arch_updated_at = None\<rparr>]
   \<and> map archst_stage_id (archived_task_stages (archive_old_tasks (\<lambda>_. False) 300
       (sample_db [done_task 1, sample_task\<lparr>task_id := 2, name := ''Audit''\<rparr>]
          [sample_stage, sample_stage\<lparr>stage_id := 11, stage_task_id := 2\<rparr>]))) = [10]
   \<and> map task_id (tasks (archive_old_tasks (\<lambda>_. False) 300
       (sample_db [done_task 1, sample_task\<lparr>task_id := 2, name := ''Audit''\<rparr>]
          [sample_stage, sample_stage\<lparr>stage_id := 11, stage_task_id := 2\<rparr>]))) = [2]"
proof -
  let ?d = "sample_db [done_task 1, sample_task\<lparr>task_id := 2, name := ''Audit''\<rparr>]
          [sample_stage, sample_stage\<lparr>stage_id := 11, stage_task_id := 2\<rparr>]"
  let ?cs = "\<lparr>state_id = 3, state_name = ''completed'', state_description = None\<rparr>"
  have h1: "find (\<lambda>s. state_name s = ''completed'') (states ?d) = Some ?cs"
    by (simp add: sample_completed_state)
  have h2: "done_task 1 \<in> set (tasks ?d)"
    by simp
  have h3: "status_state_id (done_task 1) = Some (state_id ?cs)"
    by (simp add: done_task_def)
  have h4: "completed_date (done_task 1) = Some 100"
    by (simp add: done_task_def)
  have h5: "(100::int) \<le> 300 - 30"
    by simp
  have h6: "distinct (map task_id (tasks ?d))"
    by (simp add: done_task_def)
  have h7: "task_id (done_task 1) \<notin> arch_task_id ` set (archived_tasks ?d)"
    by simp
  have h8: "task_id (done_task 1) \<notin> archst_task_id ` set (archived_task_stages ?d)"
    by simp
  have el: "archive_filter 3 270 (done_task 1)" "\<not> archive_filter 3 270 (sample_task\<lparr>task_id := 2, name := ''Audit''\<rparr>)"
    by (simp_all add: archive_filter_def done_task_def sample_task_def)
  have run: "archive_old_tasks (\<lambda>_. False) 300 ?d
      = ?d\<lparr>tasks := [sample_task\<lparr>task_id := 2, name := ''Audit''\<rparr>],
            task_stages := [sample_stage\<lparr>stage_id := 11, stage_task_id := 2\<rparr>],
            archived_tasks := [archive_task_copy (done_task 1)],
            archived_task_stages := [archive_stage_copy sample_stage]\<rparr>"
    by (simp add: archive_old_tasks_def sample_completed_state Let_def el stages_of_def)
      (simp add: done_task_def sample_task_def sample_stage_def)
  from archive_round_trip [OF h1 h2 h3 h4 h5 h6 h7 h8]
  show ?thesis
    unfolding run
    by (simp add: archive_task_copy_def archive_stage_copy_def done_task_def sample_task_def
        sample_stage_def stages_of_def)
qed

section \<open>Overdue sweep\<close>

lemma enqueue_email_store [simp]:
  "states (store (enqueue_email s b t st)) = states (store st)"
  "users (store (enqueue_email s b t st)) = users (store st)"
  "tasks (store (enqueue_email s b t st)) = tasks (store st)"
  "task_stages (store (enqueue_email s b t st)) = task_stages (store st)"
  by (simp_all add: enqueue_email_def Let_def)

lemma gather_store [simp]:
  "states (store (gather es st)) = states (store st)"
  "users (store (gather es st)) = users (store st)"
  "tasks (store (gather es st)) = tasks (store st)"
  "task_stages (store (gather es st)) = task_stages (store st)"
  by (induction es st rule: gather.induct) simp_all

lemma gather_queue:
  "\<exists>new. email_queue (gather es st) = email_queue st @ new
     \<and> map (\<lambda>j. (job_subject j, job_to_email j)) new = map (\<lambda>(s, b, t). (s, t)) es"
proof (induction es st rule: gather.induct)
  case (1 st)
  show ?case by simp
next
  case (2 subj bod to es st)
  then obtain new where
    new: "email_queue (gather es (enqueue_email subj bod to st))
        = email_queue (enqueue_email subj bod to st) @ new"
      "map (\<lambda>j. (job_subject j, job_to_email j)) new = map (\<lambda>(s, b, t). (s, t)) es"
    by blast
  let ?j = "\<lparr>job_log_id = next_log_id (email_logs (store st)), job_subject = subj,
      job_body = bod, job_to_email = to\<rparr>"
  have "email_queue (gather ((subj, bod, to) # es) st) = email_queue st @ (?j # new)"
    using new(1) by (simp add: enqueue_email_def Let_def)
  moreover have "map (\<lambda>j. (job_subject j, job_to_email j)) (?j # new)
      = map (\<lambda>(s, b, t). (s, t)) ((subj, bod, to) # es)"
    using new(2) by simp
  ultimately show ?case by blast
qed

lemma gather_queue_length: "length (email_queue st) \<le> length (email_queue (gather es st))"
  using gather_queue [of es st] by auto

lemma get_all_states_cong: "states d' = states d \<Longrightarrow> get_all_states d' = get_all_states d"
  by (simp add: get_all_states_def)

lemma mark_overdue_sel [simp]:
  "states (mark_tasks_overdue c o' today d) = states d"
  "users (mark_tasks_overdue c o' today d) = users d"
  "task_stages (mark_tasks_overdue c o' today d) = task_stages d"
  "states (mark_stages_overdue c o' today d) = states d"
  "users (mark_stages_overdue c o' today d) = users d"
  "tasks (mark_stages_overdue c o' today d) = tasks d"
  by (simp_all add: mark_tasks_overdue_def mark_stages_overdue_def)

lemma sweep_aborted:
  assumes "raises LoadStates \<or> raises TaskPhase \<or> raises StagePhase \<or> raises CommitPhase
     \<or> get_all_states (store st) ''completed'' = None
     \<or> get_all_states (store st) ''overdue'' = None"
  shows "check_overdue_and_notify raises today st = st"
  using assms by (auto simp: check_overdue_and_notify_def Let_def split: option.splits)

lemma sweep_committed:
  assumes "get_all_states (store st) ''completed'' = Some c"
    and "get_all_states (store st) ''overdue'' = Some o'"
    and "\<not> raises LoadStates" "\<not> raises TaskPhase" "\<not> raises StagePhase"
    and "\<not> raises CommitPhase"
  shows "tasks (store (check_overdue_and_notify raises today st))
           = tasks (mark_tasks_overdue c o' today (store st))"
    and "task_stages (store (check_overdue_and_notify raises today st))
           = task_stages (mark_stages_overdue c o' today
               (mark_tasks_overdue c o' today (store st)))"
    and "states (store (check_overdue_and_notify raises today st)) = states (store st)"
    and "users (store (check_overdue_and_notify raises today st)) = users (store st)"
  using assms by (simp_all add: check_overdue_and_notify_def Let_def)

lemma sweep_queue_grows:
  "length (email_queue st) \<le> length (email_queue (check_overdue_and_notify raises today st))"
proof -
  have "length (email_queue st) \<le> length (email_queue (gather es2 (gather es1 (st\<lparr>store := d\<rparr>))))"
    for es1 es2 d
    using gather_queue_length [of "st\<lparr>store := d\<rparr>" es1]
      gather_queue_length [of "gather es1 (st\<lparr>store := d\<rparr>)" es2] by simp
  moreover have "length (email_queue st) \<le> length (email_queue (gather es1 (st\<lparr>store := d\<rparr>)))"
    for es1 d
    using gather_queue_length [of "st\<lparr>store := d\<rparr>" es1] by simp
  ultimately show ?thesis
    by (simp add: check_overdue_and_notify_def Let_def split: option.splits)
qed

lemma mark_tasks_overdue_idem:
  assumes "tasks d' = tasks (mark_tasks_overdue c o' today d)"
  shows "tasks (mark_tasks_overdue c o' today d') = tasks (mark_tasks_overdue c o' today d)"
proof -
  let ?f = "\<lambda>t. if overdue_task_filter c today t
                  then (if status_state_id t \<noteq> Some o' then t\<lparr>status_state_id := Some o'\<rparr> else t)
                  else t"
  have "?f (?f t) = ?f t" for t
    by (simp add: overdue_task_filter_def)
  then have "map ?f (map ?f ts) = map ?f ts" for ts
    by (induction ts) simp_all
  then show ?thesis
    using assms by (simp add: mark_tasks_overdue_def)
qed

lemma mark_stages_overdue_idem:
  assumes "tasks d' = tasks d" and "task_stages d' = task_stages (mark_stages_overdue c o' today d)"
  shows "task_stages (mark_stages_overdue c o' today d')
           = task_stages (mark_stages_overdue c o' today d)"
proof -
  let ?g = "\<lambda>s. if overdue_stage_filter (tasks d) c today s
                  then s\<lparr>stage_status_state_id := o'\<rparr> else s"
  have "?g (?g s) = ?g s" for s
    by (simp add: overdue_stage_filter_def)
  then have "map ?g (map ?g ss) = map ?g ss" for ss
    by (induction ss) simp_all
  then show ?thesis
    using assms by (simp add: mark_stages_overdue_def)
qed

text \<open>
  C6. After a sweep that met no failure, a second sweep on the same date, whatever
  happens in it, leaves the task rows and the stage rows exactly as the first left them;
  the queue of notifications can only have grown.
\<close>

theorem sweep_twice_same_statuses:
  "tasks (store (check_overdue_and_notify raises2 today
            (check_overdue_and_notify (\<lambda>_. False) today st)))
     = tasks (store (check_overdue_and_notify (\<lambda>_. False) today st))
   \<and> task_stages (store (check_overdue_and_notify raises2 today
            (check_overdue_and_notify (\<lambda>_. False) today st)))
     = task_stages (store (check_overdue_and_notify (\<lambda>_. False) today st))
   \<and> length (email_queue (check_overdue_and_notify (\<lambda>_. False) today st))
     \<le> length (email_queue (check_overdue_and_notify raises2 today
            (check_overdue_and_notify (\<lambda>_. False) today st)))"
proof -
  let ?once = "check_overdue_and_notify (\<lambda>_. False) today st"
  let ?twice = "check_overdue_and_notify raises2 today ?once"
  have grows: "length (email_queue ?once) \<le> length (email_queue ?twice)"
    by (rule sweep_queue_grows)
  have same: "tasks (store ?twice) = tasks (store ?once)
      \<and> task_stages (store ?twice) = task_stages (store ?once)"
  proof (cases "get_all_states (store st) ''completed'' = None
      \<or> get_all_states (store st) ''overdue'' = None")
    case True
    then have "?once = st"
      by (intro sweep_aborted) blast
    moreover have "check_overdue_and_notify raises2 today st = st"
      using True by (intro sweep_aborted) blast
    ultimately show ?thesis by simp
  next
    case False
    then obtain c o' where c: "get_all_states (store st) ''completed'' = Some c"
      and o': "get_all_states (store st) ''overdue'' = Some o'"
      by auto
    note once = sweep_committed [OF c o', of "\<lambda>_. False" today, simplified]
    have cs: "get_all_states (store ?once) = get_all_states (store st)"
      using once(3) by (rule get_all_states_cong)
    show ?thesis
    proof (cases "raises2 LoadStates \<or> raises2 TaskPhase \<or> raises2 StagePhase
        \<or> raises2 CommitPhase")
      case True
      then have "?twice = ?once"
        by (intro sweep_aborted) blast
      then show ?thesis by simp
    next
      case False
      have c2: "get_all_states (store ?once) ''completed'' = Some c"
        and o2: "get_all_states (store ?once) ''overdue'' = Some o'"
        using c o' cs by simp_all
      have twice: "tasks (store ?twice) = tasks (mark_tasks_overdue c o' today (store ?once))"
        "task_stages (store ?twice) = task_stages (mark_stages_overdue c o' today
               (mark_tasks_overdue c o' today (store ?once)))"
        using sweep_committed [OF c2 o2, of raises2 today] False by simp_all
      have t: "tasks (mark_tasks_overdue c o' today (store ?once))
          = tasks (mark_tasks_overdue c o' today (store st))"
        using once(1) by (rule mark_tasks_overdue_idem)
      have "task_stages (mark_stages_overdue c o' today
               (mark_tasks_overdue c o' today (store ?once)))
          = task_stages (mark_stages_overdue c o' today
               (mark_tasks_overdue c o' today (store st)))"
        using t once(2) by (intro mark_stages_overdue_idem) simp_all
      then show ?thesis
        using twice t once by simp
    qed
  qed
  show ?thesis
    using same grows by simp
qed

text \<open>
  C4 (as amended). The sweep has one fault boundary, its single commit after both the
  task loop and the stage loop: an exception in any part up to and including the commit
  rolls back the task and the stage changes together and the run leaves the state as it
  found it; without one, the task and stage rows are those of a run without failure,
  also when the reminder part, after the commit, raises.
\<close>

theorem sweep_single_commit:
  "(raises LoadStates \<or> raises TaskPhase \<or> raises StagePhase \<or> raises CommitPhase
      \<longrightarrow> check_overdue_and_notify raises today st = st)
   \<and> (\<not> raises LoadStates \<and> \<not> raises TaskPhase \<and> \<not> raises StagePhase
        \<and> \<not> raises CommitPhase
      \<longrightarrow> tasks (store (check_overdue_and_notify raises today st))
            = tasks (store (check_overdue_and_notify (\<lambda>_. False) today st))
        \<and> task_stages (store (check_overdue_and_notify raises today st))
            = task_stages (store (check_overdue_and_notify (\<lambda>_. False) today st)))"
proof (intro conjI impI)
  assume "raises LoadStates \<or> raises TaskPhase \<or> raises StagePhase \<or> raises CommitPhase"
  then show "check_overdue_and_notify raises today st = st"
    by (intro sweep_aborted) blast
next
  assume ok: "\<not> raises LoadStates \<and> \<not> raises TaskPhase \<and> \<not> raises StagePhase
      \<and> \<not> raises CommitPhase"
  have "tasks (store (check_overdue_and_notify raises today st))
        = tasks (store (check_overdue_and_notify (\<lambda>_. False) today st))
      \<and> task_stages (store (check_overdue_and_notify raises today st))
        = task_stages (store (check_overdue_and_notify (\<lambda>_. False) today st))"
  proof (cases "get_all_states (store st) ''completed'' = None
      \<or> get_all_states (store st) ''overdue'' = None")
    case True
    then have "check_overdue_and_notify r today st = st" for r
      by (intro sweep_aborted) blast
    then show ?thesis by simp
  next
    case False
    then obtain c o' where c: "get_all_states (store st) ''completed'' = Some c"
      and o': "get_all_states (store st) ''overdue'' = Some o'"
      by auto
    show ?thesis
      using sweep_committed(1,2) [OF c o', of raises today]
        sweep_committed(1,2) [OF c o', of "\<lambda>_. False" today] ok by simp
  qed
  then show "tasks (store (check_overdue_and_notify raises today st))
        = tasks (store (check_overdue_and_notify (\<lambda>_. False) today st))"
    and "task_stages (store (check_overdue_and_notify raises today st))
        = task_stages (store (check_overdue_and_notify (\<lambda>_. False) today st))"
    by simp_all
qed

text \<open>
  One task due on day 200, still pending, with a started stage; the sweep runs on day 300
  and the stage query raises. The task phase had set the task to overdue (id 4) in the
  session, but nothing was committed: the task is still pending (id 1) afterwards. A run
  without failure sets both the task and the stage to overdue.
\<close>

theorem sweep_phase_isolation_counterexample:
  "map status_state_id
       (tasks (store (check_overdue_and_notify (\<lambda>p. p = StagePhase) 300 late_state)))
     = [Some 1]
   \<and> map status_state_id
       (tasks (store (check_overdue_and_notify (\<lambda>_. False) 300 late_state)))
     = [Some 4]
   \<and> map stage_status_state_id
       (task_stages (store (check_overdue_and_notify (\<lambda>_. False) 300 late_state)))
     = [4]"
proof -
  have st: "get_all_states (store late_state) ''completed'' = Some 3"
    "get_all_states (store late_state) ''overdue'' = Some 4"
    by (simp_all add: late_state_def sample_states)
  have a: "check_overdue_and_notify (\<lambda>p. p = StagePhase) 300 late_state = late_state"
    by (intro sweep_aborted) simp
  have b: "map status_state_id (tasks (mark_tasks_overdue 3 4 300 (store late_state)))
      = [Some 4]"
    by (simp add: mark_tasks_overdue_def overdue_task_filter_def late_state_def sample_task_def)
  have c: "map stage_status_state_id (task_stages (mark_stages_overdue 3 4 300
      (mark_tasks_overdue 3 4 300 (store late_state)))) = [4]"
    by (simp add: mark_stages_overdue_def mark_tasks_overdue_def overdue_task_filter_def
        overdue_stage_filter_def late_state_def sample_task_def sample_stage_def)
  show ?thesis
    using b c by (simp add: a sweep_committed [OF st])
      (simp add: late_state_def sample_task_def)
qed

theorem sweep_single_commit_witness:
  "check_overdue_and_notify (\<lambda>p. p = CommitPhase) 300 late_state = late_state
   \<and> map status_state_id
       (tasks (store (check_overdue_and_notify (\<lambda>p. p = ReminderPhase) 300 late_state)))
     = [Some 4]"
proof -
  have st: "get_all_states (store late_state) ''completed'' = Some 3"
    "get_all_states (store late_state) ''overdue'' = Some 4"
    by (simp_all add: late_state_def sample_states)
  have b: "map status_state_id (tasks (mark_tasks_overdue 3 4 300 (store late_state)))
      = [Some 4]"
    by (simp add: mark_tasks_overdue_def overdue_task_filter_def late_state_def sample_task_def)
  have nf: "map status_state_id
       (tasks (store (check_overdue_and_notify (\<lambda>_. False) 300 late_state))) = [Some 4]"
    using b by (simp add: sweep_committed [OF st])
  from sweep_single_commit [of "\<lambda>p. p = CommitPhase" 300 late_state]
  have "check_overdue_and_notify (\<lambda>p. p = CommitPhase) 300 late_state = late_state"
    by simp
  moreover from sweep_single_commit [of "\<lambda>p. p = ReminderPhase" 300 late_state]
  have "tasks (store (check_overdue_and_notify (\<lambda>p. p = ReminderPhase) 300 late_state))
      = tasks (store (check_overdue_and_notify (\<lambda>_. False) 300 late_state))"
    by simp
  ultimately show ?thesis
    using nf by simp
qed

lemma sweep_queue_overdue:
  assumes "get_all_states (store st) ''completed'' = Some c"
    and "get_all_states (store st) ''overdue'' = Some o'"
    and "\<not> raises LoadStates" "\<not> raises TaskPhase" "\<not> raises StagePhase"
    and "\<not> raises CommitPhase"
  shows "\<exists>new rest. email_queue (check_overdue_and_notify raises today st)
        = email_queue st @ new @ rest
      \<and> map (\<lambda>j. (job_subject j, job_to_email j)) new
        = map (\<lambda>(s, b, t). (s, t)) (concat (map (task_overdue_email (store st))
            (filter (overdue_task_filter c today) (tasks (store st)))))"
proof -
  let ?d1 = "mark_tasks_overdue c o' today (store st)"
  let ?d2 = "mark_stages_overdue c o' today ?d1"
  let ?te = "concat (map (task_overdue_email (store st))
      (filter (overdue_task_filter c today) (tasks (store st))))"
  let ?se = "concat (map (stage_overdue_email ?d1)
      (filter (overdue_stage_filter (tasks ?d1) c today) (task_stages ?d1)))"
  let ?st1 = "gather (?te @ ?se) (st\<lparr>store := ?d2\<rparr>)"
  obtain new1 where n1: "email_queue ?st1 = email_queue (st\<lparr>store := ?d2\<rparr>) @ new1"
    "map (\<lambda>j. (job_subject j, job_to_email j)) new1 = map (\<lambda>(s, b, t). (s, t)) (?te @ ?se)"
    using gather_queue [of "?te @ ?se" "st\<lparr>store := ?d2\<rparr>"] by blast
  let ?new = "take (length ?te) new1"
  have len: "length new1 = length ?te + length ?se"
    using arg_cong [OF n1(2), of length] by simp
  have split: "new1 = ?new @ drop (length ?te) new1"
    by simp
  have "map (\<lambda>j. (job_subject j, job_to_email j)) ?new
      = take (length ?te) (map (\<lambda>(s, b, t). (s, t)) (?te @ ?se))"
    using n1(2) by (simp add: take_map [symmetric] del: map_append)
  then have newmap: "map (\<lambda>j. (job_subject j, job_to_email j)) ?new
      = map (\<lambda>(s, b, t). (s, t)) ?te"
    by simp
  have q1: "email_queue ?st1 = email_queue st @ ?new @ drop (length ?te) new1"
    using n1(1) by simp
  show ?thesis
  proof (cases "raises ReminderPhase")
    case True
    then have "check_overdue_and_notify raises today st = ?st1"
      using assms by (simp add: check_overdue_and_notify_def Let_def)
    then have "email_queue (check_overdue_and_notify raises today st)
        = email_queue st @ ?new @ drop (length ?te) new1"
      using q1 by simp
    then show ?thesis
      using newmap by (intro exI [of _ ?new] exI [of _ "drop (length ?te) new1"] conjI)
  next
    case False
    let ?re = "concat (map (reminder_email (store ?st1))
        (filter (near_due_filter c today) (tasks (store ?st1))))"
    have run: "check_overdue_and_notify raises today st = gather ?re ?st1"
      using assms False by (simp add: check_overdue_and_notify_def Let_def)
    obtain new2 where "email_queue (gather ?re ?st1) = email_queue ?st1 @ new2"
      using gather_queue [of ?re ?st1] by blast
    then have "email_queue (check_overdue_and_notify raises today st)
        = email_queue st @ ?new @ (drop (length ?te) new1 @ new2)"
      using q1 run by simp
    then show ?thesis
      using newmap
      by (intro exI [of _ ?new] exI [of _ "drop (length ?te) new1 @ new2"] conjI)
  qed
qed

lemma sweep_enqueues_overdue:
  assumes "get_all_states (store st) ''completed'' = Some c"
    and "get_all_states (store st) ''overdue'' = Some o'"
    and "\<not> raises LoadStates" "\<not> raises TaskPhase" "\<not> raises StagePhase"
    and "\<not> raises CommitPhase"
    and "t \<in> set (tasks (store st))"
    and "status_state_id t = Some s" and "s \<noteq> c" and "due_date t < today"
    and "assigned_user (store st) t = Some u" and "email u \<noteq> []"
  shows "\<exists>j \<in> set (drop (length (email_queue st))
              (email_queue (check_overdue_and_notify raises today st))).
           job_subject j = ''Task Overdue: '' @ name t \<and> job_to_email j = Some (email u)"
proof -
  let ?te = "concat (map (task_overdue_email (store st))
      (filter (overdue_task_filter c today) (tasks (store st))))"
  obtain new rest where q: "email_queue (check_overdue_and_notify raises today st)
        = email_queue st @ new @ rest"
    and m: "map (\<lambda>j. (job_subject j, job_to_email j)) new = map (\<lambda>(s, b, t). (s, t)) ?te"
    using sweep_queue_overdue [OF assms(1-6)] by blast
  have sel: "t \<in> set (filter (overdue_task_filter c today) (tasks (store st)))"
    using assms(7-10) by (simp add: overdue_task_filter_def)
  obtain b where "task_overdue_email (store st) t
      = [(''Task Overdue: '' @ name t, b, Some (email u))]"
    using assms(11,12) by (simp add: task_overdue_email_def recipient_def truthy_def Let_def)
  then have "(''Task Overdue: '' @ name t, b, Some (email u)) \<in> set ?te"
    using sel by force
  then have "(''Task Overdue: '' @ name t, Some (email u))
      \<in> set (map (\<lambda>(s, b, t). (s, t)) ?te)"
    by force
  then have "(''Task Overdue: '' @ name t, Some (email u))
      \<in> set (map (\<lambda>j. (job_subject j, job_to_email j)) new)"
    using m by simp
  then obtain j where "j \<in> set new" "job_subject j = ''Task Overdue: '' @ name t"
    "job_to_email j = Some (email u)"
    by auto
  then show ?thesis
    using q by auto
qed


text \<open>
  C10. In a sweep that meets no failure, every task that is not completed, is due before
  today and has an assigned user with a non-empty email gets a job with the subject
  "Task Overdue: " followed by its name, addressed to that email, appended to the queue. This
  holds for a task already overdue, whose row the run leaves as it is, and it holds again in
  the next run: the notification is enqueued once more. The completed and the overdue
  state are different states.
\<close>

theorem overdue_notification_every_run:
  assumes "get_all_states (store st) ''completed'' = Some c"
    and "get_all_states (store st) ''overdue'' = Some o'"
    and "c \<noteq> o'"
    and "t \<in> set (tasks (store st))"
    and "status_state_id t = Some s" and "s \<noteq> c" and "due_date t < today"
    and "assigned_user (store st) t = Some u" and "email u \<noteq> []"
  shows "(\<exists>j \<in> set (drop (length (email_queue st))
              (email_queue (check_overdue_and_notify (\<lambda>_. False) today st))).
            job_subject j = ''Task Overdue: '' @ name t \<and> job_to_email j = Some (email u))
       \<and> (\<exists>j \<in> set (drop (length (email_queue (check_overdue_and_notify (\<lambda>_. False) today st)))
              (email_queue (check_overdue_and_notify (\<lambda>_. False) today
                 (check_overdue_and_notify (\<lambda>_. False) today st)))).
            job_subject j = ''Task Overdue: '' @ name t \<and> job_to_email j = Some (email u))
       \<and> (s = o' \<longrightarrow> t \<in> set (tasks (store (check_overdue_and_notify (\<lambda>_. False) today st))))"
proof -
  let ?once = "check_overdue_and_notify (\<lambda>_. False) today st"
  let ?t' = "if status_state_id t \<noteq> Some o' then t\<lparr>status_state_id := Some o'\<rparr> else t"
  note once = sweep_committed [OF assms(1,2), of "\<lambda>_. False" today, simplified]
  have first: "\<exists>j \<in> set (drop (length (email_queue st)) (email_queue ?once)).
      job_subject j = ''Task Overdue: '' @ name t \<and> job_to_email j = Some (email u)"
    using sweep_enqueues_overdue [OF assms(1,2) _ _ _ _ assms(4,5,6,7,8,9),
        of "\<lambda>_. False"] by simp
  have sel: "overdue_task_filter c today t"
    using assms(5,6,7) by (simp add: overdue_task_filter_def)
  have "?t' \<in> (\<lambda>t. if overdue_task_filter c today t
                  then (if status_state_id t \<noteq> Some o' then t\<lparr>status_state_id := Some o'\<rparr> else t)
                  else t) ` set (tasks (store st))"
    using assms(4) sel by (intro image_eqI [of _ _ t]) simp_all
  then have mem: "?t' \<in> set (tasks (store ?once))"
    unfolding once(1) by (simp add: mark_tasks_overdue_def)
  have cs: "get_all_states (store ?once) = get_all_states (store st)"
    using once(3) by (rule get_all_states_cong)
  have c2: "get_all_states (store ?once) ''completed'' = Some c"
    and o2: "get_all_states (store ?once) ''overdue'' = Some o'"
    using assms(1,2) cs by simp_all
  have st': "status_state_id ?t' = Some o'"
    by simp
  have due': "due_date ?t' < today"
    using assms(7) by simp
  have u': "assigned_user (store ?once) ?t' = Some u"
    using assms(8) by (simp add: assigned_user_def once(4) cong: option.case_cong)
  have ne: "o' \<noteq> c"
    using assms(3) by simp
  have "\<exists>j \<in> set (drop (length (email_queue ?once))
              (email_queue (check_overdue_and_notify (\<lambda>_. False) today ?once))).
      job_subject j = ''Task Overdue: '' @ name ?t' \<and> job_to_email j = Some (email u)"
    using sweep_enqueues_overdue [OF c2 o2 _ _ _ _ mem st' ne due' u' assms(9),
        of "\<lambda>_. False"] by simp
  moreover have "name ?t' = name t"
    by simp
  ultimately have second: "\<exists>j \<in> set (drop (length (email_queue ?once))
              (email_queue (check_overdue_and_notify (\<lambda>_. False) today ?once))).
      job_subject j = ''Task Overdue: '' @ name t \<and> job_to_email j = Some (email u)"
    by simp
  have third: "s = o' \<longrightarrow> t \<in> set (tasks (store ?once))"
    using mem assms(5) by auto
  show ?thesis
    using first second third by blast
qed

theorem overdue_notification_every_run_witness:
  "(\<exists>j \<in> set (drop (length (email_queue already_overdue_state))
        (email_queue (check_overdue_and_notify (\<lambda>_. False) 300 already_overdue_state))).
      job_subject j = ''Task Overdue: Release'' \<and> job_to_email j = Some ''ada@example.com'')
   \<and> (\<exists>j \<in> set (drop (length (email_queue
          (check_overdue_and_notify (\<lambda>_. False) 300 already_overdue_state)))
        (email_queue (check_overdue_and_notify (\<lambda>_. False) 300
           (check_overdue_and_notify (\<lambda>_. False) 300 already_overdue_state)))).
      job_subject j = ''Task Overdue: Release'' \<and> job_to_email j = Some ''ada@example.com'')
   \<and> sample_task\<lparr>status_state_id := Some 4\<rparr>
       \<in> set (tasks (store (check_overdue_and_notify (\<lambda>_. False) 300 already_overdue_state)))"
proof -
  let ?t = "sample_task\<lparr>status_state_id := Some 4\<rparr>"
  have h1: "get_all_states (store already_overdue_state) ''completed'' = Some 3"
    and h2: "get_all_states (store already_overdue_state) ''overdue'' = Some 4"
    by (simp_all add: already_overdue_state_def sample_states)
  have h3: "(3::int) \<noteq> 4"
    by simp
  have h4: "?t \<in> set (tasks (store already_overdue_state))"
    by (simp add: already_overdue_state_def)
  have h5: "status_state_id ?t = Some 4"
    by simp
  have h6: "(4::int) \<noteq> 3"
    by simp
  have h7: "due_date ?t < 300"
    by (simp add: sample_task_def)
  have h8: "assigned_user (store already_overdue_state) ?t = Some sample_user"
    by (simp add: assigned_user_def already_overdue_state_def sample_task_def sample_user_def)
  have h9: "email sample_user \<noteq> []"
    by (simp add: sample_user_def)
  have nm: "name ?t = ''Release''" "email sample_user = ''ada@example.com''"
    by (simp_all add: sample_task_def sample_user_def)
  from overdue_notification_every_run [OF h1 h2 h3 h4 h5 h6 h7 h8 h9]
  show ?thesis
    unfolding nm by simp
qed

section \<open>Delivery worker\<close>

lemma send_email_async_returns:
  "\<exists>printed. send_email_async settings smtp subj bod to = Inr printed"
  by (simp add: send_email_async_def Let_def split: option.splits)

lemma process_job_marks_sent:
  assumes "db_fault (job_log_id job) MarkSent = None"
  shows "process_job settings smtp db_fault now job d
     = Inr (mark_log (job_log_id job) (\<lambda>r. r\<lparr>status := ''sent'', sent_at := Some now\<rparr>) d)"
proof -
  obtain printed where "send_email_async settings smtp (job_subject job) (job_body job)
      (job_to_email job) = Inr printed"
    using send_email_async_returns by blast
  then show ?thesis
    using assms by (simp add: process_job_def)
qed

lemma worker_stays_alive:
  assumes "\<And>i. db_fault i MarkSent = None"
  shows "\<exists>st'. drain settings smtp db_fault now jobs d = Waiting st'"
proof (induction jobs arbitrary: d)
  case Nil
  show ?case by simp
next
  case (Cons job jobs)
  have "process_job settings smtp db_fault now job d
      = Inr (mark_log (job_log_id job) (\<lambda>r. r\<lparr>status := ''sent'', sent_at := Some now\<rparr>) d)"
    using assms by (rule process_job_marks_sent)
  then show ?case
    using Cons.IH by simp
qed

text \<open>
  C1, at the failing input. One notification is enqueued, the mail host is configured and
  the transport raises "Connection refused". \<open>send_email_async\<close> catches the exception and
  returns, so the worker takes its success path: the log row ends as \<open>sent\<close> with a
  timestamp and without error_message, not as \<open>failed\<close>. The worker is alive, waiting on
  the empty queue.
\<close>

theorem transport_failure_marked_sent:
  "email_worker mail_settings (\<lambda>_. Some ''Connection refused'') (\<lambda>_ _. None) 5000
       one_pending_state
     = Waiting \<lparr>store = (sample_db [] [])\<lparr>email_logs :=
          [\<lparr>email_log_id = 1, to_email = Some ''ada@example.com'',
            subject = ''Task Overdue: Release'', body = [Lit ''Hello Ada''],
            status = ''sent'', sent_at = Some 5000, error_message = None\<rparr>]\<rparr>,
        email_queue = []\<rparr>"
  by (simp add: email_worker_def one_pending_state_def enqueue_email_def next_log_id_def
      process_job_marks_sent mark_log_def Let_def)

end
